theory Spec2Isabelle
  imports Complex_Main "HOL-Library.Word"
begin

section \<open>Python values used by IEEE\_754.py\<close>

text \<open>
  The module works on Python strings, unbounded integers and floats, and on the
  standard library's \<^verbatim>\<open>struct\<close> module. Strings are modelled as \<^typ>\<open>string\<close>
  (code points below 256), Python's \<^verbatim>\<open>int\<close> as \<^typ>\<open>int\<close>, and every exception
  the module can raise as a value of \<open>error\<close>.
\<close>

datatype error = ValueError | OverflowError | StructError | IndexError

subsection \<open>\<^verbatim>\<open>int(text, base)\<close>\<close>

text \<open>
  \<^verbatim>\<open>int(text, base)\<close> for an explicit base between 2 and 36 (CPython's
  \<^verbatim>\<open>PyLong_FromString\<close>): surrounding whitespace is skipped, one sign is allowed,
  then for bases 2, 8 and 16 the matching prefix \<^verbatim>\<open>0b\<close>, \<^verbatim>\<open>0o\<close>, \<^verbatim>\<open>0x\<close> (with one
  underscore after it), then digits of the base with single underscores between them.
  Anything else raises \<^verbatim>\<open>ValueError\<close>.
\<close>

definition py_isspace :: "char \<Rightarrow> bool" where
  "py_isspace c = (of_char c \<in> {9, 10, 11, 12, 13, 32, 133, 160 :: nat})"

definition digit_value :: "char \<Rightarrow> nat" where
  "digit_value c =
     (let k = (of_char c :: nat) in
      if 48 \<le> k \<and> k \<le> 57 then k - 48
      else if 97 \<le> k \<and> k \<le> 122 then k - 87
      else if 65 \<le> k \<and> k \<le> 90 then k - 55
      else 37)"

definition is_digit_or_underscore :: "nat \<Rightarrow> char \<Rightarrow> bool" where
  "is_digit_or_underscore base c = (digit_value c < base \<or> c = CHR ''_'')"

fun strip_sign :: "string \<Rightarrow> bool \<times> string" where
  "strip_sign [] = (False, [])"
| "strip_sign (c # cs) =
     (if c = CHR ''+'' then (False, cs)
      else if c = CHR ''-'' then (True, cs)
      else (False, c # cs))"

fun strip_base_prefix :: "nat \<Rightarrow> string \<Rightarrow> string" where
  "strip_base_prefix base (c0 # c1 # cs) =
     (if c0 = CHR ''0'' \<and>
         ((base = 16 \<and> (c1 = CHR ''x'' \<or> c1 = CHR ''X'')) \<or>
          (base = 8 \<and> (c1 = CHR ''o'' \<or> c1 = CHR ''O'')) \<or>
          (base = 2 \<and> (c1 = CHR ''b'' \<or> c1 = CHR ''B'')))
      then (case cs of [] \<Rightarrow> [] | u # r \<Rightarrow> if u = CHR ''_'' then r else u # r)
      else c0 # c1 # cs)"
| "strip_base_prefix base cs = cs"

fun double_underscore :: "string \<Rightarrow> bool" where
  "double_underscore (a # b # cs) =
     ((a = CHR ''_'' \<and> b = CHR ''_'') \<or> double_underscore (b # cs))"
| "double_underscore cs = False"

definition digits_value :: "nat \<Rightarrow> string \<Rightarrow> nat" where
  "digits_value base ds = foldl (\<lambda>acc c. acc * base + digit_value c) 0 ds"

definition py_int :: "nat \<Rightarrow> string \<Rightarrow> error + int" where
  "py_int base text =
     (let (neg, s1) = strip_sign (dropWhile py_isspace text);
          s2 = strip_base_prefix base s1;
          run = takeWhile (is_digit_or_underscore base) s2;
          rest = dropWhile (is_digit_or_underscore base) s2
      in if run = [] \<or> hd run = CHR ''_'' \<or> last run = CHR ''_'' \<or> double_underscore run
            \<or> dropWhile py_isspace rest \<noteq> []
         then Inl ValueError
         else let n = int (digits_value base (filter (\<lambda>c. c \<noteq> CHR ''_'') run))
              in Inr (if neg then - n else n))"

subsection \<open>\<^verbatim>\<open>format(n, '032b')\<close> and \<^verbatim>\<open>hex(n)\<close>\<close>

definition digit_char :: "nat \<Rightarrow> char" where
  "digit_char d = ''0123456789abcdefghijklmnopqrstuvwxyz'' ! d"

fun to_base :: "nat \<Rightarrow> nat \<Rightarrow> string" where
  "to_base b n =
     (if b < 2 \<or> n < b then [digit_char n]
      else to_base b (n div b) @ [digit_char (n mod b)])"

declare to_base.simps [simp del]

definition zfill :: "nat \<Rightarrow> string \<Rightarrow> string" where
  "zfill w s = replicate (w - length s) CHR ''0'' @ s"

text \<open>
  \<^verbatim>\<open>format(n, '032b')\<close>: the binary digits of \<open>n\<close>, zero-padded to a total width of
  32 characters; a minus sign counts in the width and precedes the padding.
\<close>

definition format_032b :: "int \<Rightarrow> string" where
  "format_032b n =
     (if n < 0 then CHR ''-'' # zfill 31 (to_base 2 (nat (- n)))
      else zfill 32 (to_base 2 (nat n)))"

definition hex :: "int \<Rightarrow> string" where
  "hex n =
     (if n < 0 then ''-0x'' @ to_base 16 (nat (- n))
      else ''0x'' @ to_base 16 (nat n))"

subsection \<open>Floats and \<^verbatim>\<open>struct\<close>\<close>

text \<open>
  A Python float is a C double, an IEEE 754 binary64 value: it is modelled by its 64-bit
  pattern, so that equality of the model is bit-for-bit equality. The four bytes that
  \<^verbatim>\<open>struct.pack\<close> produces in network order are modelled as one 32-bit word.
\<close>

type_synonym pyfloat = "64 word"

definition d_sign :: "pyfloat \<Rightarrow> nat" where
  "d_sign x = unat x div 2 ^ 63"

definition d_exponent :: "pyfloat \<Rightarrow> nat" where
  "d_exponent x = unat x div 2 ^ 52 mod 2 ^ 11"

definition d_fraction :: "pyfloat \<Rightarrow> nat" where
  "d_fraction x = unat x mod 2 ^ 52"

definition d_isinf :: "pyfloat \<Rightarrow> bool" where
  "d_isinf x = (d_exponent x = 2047 \<and> d_fraction x = 0)"

definition f_sign :: "32 word \<Rightarrow> nat" where
  "f_sign y = unat y div 2 ^ 31"

definition f_exponent :: "32 word \<Rightarrow> nat" where
  "f_exponent y = unat y div 2 ^ 23 mod 2 ^ 8"

definition f_fraction :: "32 word \<Rightarrow> nat" where
  "f_fraction y = unat y mod 2 ^ 23"

definition f_isinf :: "32 word \<Rightarrow> bool" where
  "f_isinf y = (f_exponent y = 255 \<and> f_fraction y = 0)"

text \<open>\<open>n / 2 ^ k\<close> rounded to the nearest integer, ties to the even one.\<close>

definition round_half_even :: "nat \<Rightarrow> nat \<Rightarrow> nat" where
  "round_half_even n k =
     (let q = n div 2 ^ k; r = n mod 2 ^ k
      in if 2 ^ k < 2 * r \<or> (2 * r = 2 ^ k \<and> odd q) then q + 1 else q)"

text \<open>
  The C conversion \<^verbatim>\<open>(float)x\<close> in the default rounding mode. A NaN keeps its sign
  and the upper 23 bits of its payload and becomes quiet; a double below the binary32
  normal range is rounded to a multiple of \<open>2 ^ -149\<close>; a double that rounds to
  \<open>2 ^ 128\<close> or more becomes an infinity.
\<close>

definition float_of_double :: "pyfloat \<Rightarrow> 32 word" where
  "float_of_double x =
     (let s = d_sign x; e = d_exponent x; m = d_fraction x
      in word_of_nat (s * 2 ^ 31 +
           (if e = 2047 then
              (if m = 0 then 255 * 2 ^ 23
               else 255 * 2 ^ 23 + 2 ^ 22 + m div 2 ^ 29 mod 2 ^ 22)
            else if e = 0 then 0
            else if e \<le> 896 then round_half_even (2 ^ 52 + m) (926 - e)
            else min (255 * 2 ^ 23) ((e - 897) * 2 ^ 23 + round_half_even (2 ^ 52 + m) 29))))"

fun bit_length :: "nat \<Rightarrow> nat" where
  "bit_length n = (if n = 0 then 0 else Suc (bit_length (n div 2)))"

declare bit_length.simps [simp del]

text \<open>
  The C conversion \<^verbatim>\<open>(double)y\<close>, which is exact: a subnormal binary32 value is
  normalised, a NaN keeps its sign and payload and becomes quiet.
\<close>

definition double_of_float :: "32 word \<Rightarrow> pyfloat" where
  "double_of_float y =
     (let s = f_sign y; e = f_exponent y; m = f_fraction y
      in word_of_nat (s * 2 ^ 63 +
           (if e = 255 then
              (if m = 0 then 2047 * 2 ^ 52
               else 2047 * 2 ^ 52 + 2 ^ 51 + m mod 2 ^ 22 * 2 ^ 29)
            else if e = 0 then
              (if m = 0 then 0
               else let k = bit_length m - 1
                    in (k + 874) * 2 ^ 52 + (m - 2 ^ k) * 2 ^ (52 - k))
            else (e + 896) * 2 ^ 52 + m * 2 ^ 29)))"

text \<open>
  \<^verbatim>\<open>struct.pack('!f', x)\<close> (CPython's \<^verbatim>\<open>PyFloat_Pack4\<close>): the double is converted to
  binary32, and \<^verbatim>\<open>OverflowError\<close> is raised when a finite double became an infinity.
  \<^verbatim>\<open>struct.unpack('!f', packed)[0]\<close> widens the binary32 value to a double. Interpreters
  differ in what they do with the payload of a signalling NaN; the model follows the plain
  C conversions, and no statement below depends on it.
\<close>

definition pack_f :: "pyfloat \<Rightarrow> error + 32 word" where
  "pack_f x =
     (let y = float_of_double x
      in if f_isinf y \<and> \<not> d_isinf x then Inl OverflowError else Inr y)"

definition unpack_f :: "32 word \<Rightarrow> pyfloat" where
  "unpack_f packed = double_of_float packed"

text \<open>
  \<^verbatim>\<open>struct.pack('!I', n)\<close> raises \<^verbatim>\<open>struct.error\<close> unless \<open>0 \<le> n < 2 ^ 32\<close>;
  \<^verbatim>\<open>struct.unpack('!I', packed)[0]\<close> reads the four bytes as an unsigned integer.
\<close>

definition pack_I :: "int \<Rightarrow> error + 32 word" where
  "pack_I n = (if 0 \<le> n \<and> n < 2 ^ 32 then Inr (word_of_int n) else Inl StructError)"

definition unpack_I :: "32 word \<Rightarrow> int" where
  "unpack_I packed = uint packed"

text \<open>The float literals and constructor calls that the module and the claims use.\<close>

definition float_zero :: pyfloat where
  "float_zero = 0"

definition float_neg_zero :: pyfloat where
  "float_neg_zero = 0x8000000000000000"

definition float_inf :: pyfloat where
  "float_inf = 0x7FF0000000000000"

definition float_nan :: pyfloat where
  "float_nan = 0x7FF8000000000000"

definition float_one :: pyfloat where
  "float_one = 0x3FF0000000000000"

text \<open>
  String indexing \<^verbatim>\<open>s[i]\<close> and slicing \<^verbatim>\<open>s[i:j]\<close> for non-negative constant
  indices: an index out of range raises, a slice is clipped.
\<close>

definition str_index :: "string \<Rightarrow> nat \<Rightarrow> error + string" where
  "str_index s i = (if i < length s then Inr [s ! i] else Inl IndexError)"

definition slice :: "string \<Rightarrow> nat \<Rightarrow> nat \<Rightarrow> string" where
  "slice s i j = take (j - i) (drop i s)"

section \<open>The class \<^verbatim>\<open>IEEE754SinglePrecision\<close>\<close>

text \<open>
  The attributes of an object, in the order \<^verbatim>\<open>__init__\<close> sets them; \<open>float_value\<close> is
  \<^verbatim>\<open>self.value\<close>. A method that can raise returns \<open>error + result\<close>.
\<close>

record IEEE754SinglePrecision =
  float_value :: pyfloat
  binary_representation :: string
  sign_bit :: string
  exponent_bits :: string
  mantissa_bits :: string

definition get_binary_representation :: "pyfloat \<Rightarrow> error + string" where
  "get_binary_representation v =
     (case pack_f v of
        Inl e \<Rightarrow> Inl e
      | Inr packed \<Rightarrow>
          let as_int = unpack_I packed;
              binary = format_032b as_int
          in Inr binary)"

text \<open>\<^verbatim>\<open>__init__\<close>: the constructor \<^verbatim>\<open>IEEE754SinglePrecision(value)\<close>.\<close>

definition init :: "pyfloat \<Rightarrow> error + IEEE754SinglePrecision" where
  "init v =
     (case get_binary_representation v of
        Inl e \<Rightarrow> Inl e
      | Inr b \<Rightarrow>
          (case str_index b 0 of
             Inl e \<Rightarrow> Inl e
           | Inr sb \<Rightarrow>
               Inr \<lparr>float_value = v, binary_representation = b, sign_bit = sb,
                    exponent_bits = slice b 1 9, mantissa_bits = slice b 9 32\<rparr>))"

definition get_sign :: "IEEE754SinglePrecision \<Rightarrow> error + int" where
  "get_sign self = py_int 10 (sign_bit self)"

definition get_exponent_raw :: "IEEE754SinglePrecision \<Rightarrow> error + int" where
  "get_exponent_raw self = py_int 2 (exponent_bits self)"

definition get_exponent_unbiased :: "IEEE754SinglePrecision \<Rightarrow> error + int" where
  "get_exponent_unbiased self =
     (case get_exponent_raw self of Inl e \<Rightarrow> Inl e | Inr raw \<Rightarrow> Inr (raw - 127))"

definition get_mantissa :: "IEEE754SinglePrecision \<Rightarrow> string" where
  "get_mantissa self = mantissa_bits self"

text \<open>
  The loop of \<^verbatim>\<open>get_mantissa_value\<close> over \<^verbatim>\<open>enumerate(self.mantissa_bits)\<close>. Its
  float arithmetic is modelled on \<^typ>\<open>rat\<close>: \<^verbatim>\<open>2 ** (-(i + 1))\<close> is a power of two,
  and on the 23 mantissa characters of a constructed object every partial sum is a
  multiple of \<open>2 ^ -23\<close> below 2, which binary64 holds without rounding.
\<close>

fun mantissa_loop :: "nat \<Rightarrow> string \<Rightarrow> rat \<Rightarrow> rat" where
  "mantissa_loop i [] fraction = fraction"
| "mantissa_loop i (bit' # bits) fraction =
     mantissa_loop (i + 1) bits
       (if bit' = CHR ''1'' then fraction + 1 / 2 ^ (i + 1) else fraction)"

definition get_mantissa_value :: "IEEE754SinglePrecision \<Rightarrow> rat" where
  "get_mantissa_value self = 1 + mantissa_loop 0 (mantissa_bits self) 0"

definition is_special :: "IEEE754SinglePrecision \<Rightarrow> error + string option" where
  "is_special self =
     (case get_exponent_raw self of
        Inl e \<Rightarrow> Inl e
      | Inr exponent_raw \<Rightarrow>
          (case py_int 2 (mantissa_bits self) of
             Inl e \<Rightarrow> Inl e
           | Inr mantissa_int \<Rightarrow>
               Inr (if exponent_raw = 255 then
                      (if mantissa_int = 0 then Some ''Infinity'' else Some ''NaN'')
                    else if exponent_raw = 0 then
                      (if mantissa_int = 0 then Some ''Zero'' else Some ''Denormalized'')
                    else None)))"

text \<open>
  \<^verbatim>\<open>display\<close> prints a report. The model returns what the report holds, before the
  numbers are turned into text: for a special value the tag and the extra line printed for
  an infinity or a zero, otherwise the quantities of the step-by-step calculation.
  \<^verbatim>\<open>2 ** exp_unbiased\<close> and the final product are powers of two times the mantissa
  value, exact in binary64 for the exponents of a constructed object, and modelled on
  \<^typ>\<open>rat\<close>.
\<close>

record calculation =
  shown_sign :: int
  shown_sign_str :: string
  shown_exp_raw :: int
  shown_exp_unbiased :: int
  shown_power_of_2 :: rat
  shown_mantissa_val :: rat
  shown_sign_multiplier :: int
  shown_calculated :: rat
  shown_hex_rep :: string

datatype display_output =
    SpecialValue string "string option"
  | Calculation calculation

definition pow2 :: "int \<Rightarrow> rat" where
  "pow2 e = (if 0 \<le> e then 2 ^ nat e else 1 / 2 ^ nat (- e))"

definition display :: "IEEE754SinglePrecision \<Rightarrow> error + display_output" where
  "display self =
     (case is_special self of
        Inl e \<Rightarrow> Inl e
      | Inr special \<Rightarrow>
          (case special of
             Some (c # cs) \<Rightarrow>
               (if c # cs = ''Infinity'' then
                  (case get_sign self of
                     Inl e \<Rightarrow> Inl e
                   | Inr s \<Rightarrow>
                       Inr (SpecialValue (c # cs)
                         (Some (''   '' @ (if s = 1 then ''Negative'' else ''Positive'')
                                 @ '' Infinity''))))
                else if c # cs = ''Zero'' then
                  (case get_sign self of
                     Inl e \<Rightarrow> Inl e
                   | Inr s \<Rightarrow>
                       Inr (SpecialValue (c # cs)
                         (Some (''   '' @ (if s = 1 then ''-'' else ''+'') @ ''0.0''))))
                else Inr (SpecialValue (c # cs) None))
           | _ \<Rightarrow>
               (case get_sign self of
                  Inl e \<Rightarrow> Inl e
                | Inr sign \<Rightarrow>
               (case get_exponent_raw self of
                  Inl e \<Rightarrow> Inl e
                | Inr exp_raw \<Rightarrow>
               (case get_exponent_unbiased self of
                  Inl e \<Rightarrow> Inl e
                | Inr exp_unbiased \<Rightarrow>
               (case py_int 2 (binary_representation self) of
                  Inl e \<Rightarrow> Inl e
                | Inr pattern \<Rightarrow>
                    let mantissa_val = get_mantissa_value self;
                        sign_multiplier = (if sign = 1 then - 1 else 1);
                        calculated = of_int sign_multiplier * pow2 exp_unbiased * mantissa_val
                    in Inr (Calculation
                         \<lparr>shown_sign = sign,
                          shown_sign_str = (if sign = 1 then ''Negative (-)'' else ''Positive (+)''),
                          shown_exp_raw = exp_raw,
                          shown_exp_unbiased = exp_unbiased,
                          shown_power_of_2 = pow2 exp_unbiased,
                          shown_mantissa_val = mantissa_val,
                          shown_sign_multiplier = sign_multiplier,
                          shown_calculated = calculated,
                          shown_hex_rep = hex pattern\<rparr>)))))))"

section \<open>The module's functions\<close>

definition float_to_ieee754 :: "pyfloat \<Rightarrow> error + IEEE754SinglePrecision" where
  "float_to_ieee754 v = init v"

definition binary_to_float :: "string \<Rightarrow> error + pyfloat" where
  "binary_to_float binary_str =
     (if length binary_str \<noteq> 32 then Inl ValueError
      else (case py_int 2 binary_str of
              Inl e \<Rightarrow> Inl e
            | Inr as_int \<Rightarrow>
                (case pack_I as_int of
                   Inl e \<Rightarrow> Inl e
                 | Inr packed \<Rightarrow> Inr (unpack_f packed))))"

definition hex_to_float :: "string \<Rightarrow> error + pyfloat" where
  "hex_to_float hex_str =
     (let hex_str' = (if take 2 hex_str = ''0x'' \<or> take 2 hex_str = ''0X''
                      then drop 2 hex_str else hex_str)
      in case py_int 16 hex_str' of
           Inl e \<Rightarrow> Inl e
         | Inr as_int \<Rightarrow>
             (case pack_I as_int of
                Inl e \<Rightarrow> Inl e
              | Inr packed \<Rightarrow> Inr (unpack_f packed)))"

section \<open>Notions used in the statements and proofs\<close>

text \<open>A string of the characters \<^verbatim>\<open>0\<close> and \<^verbatim>\<open>1\<close> only.\<close>

definition binary_string :: "string \<Rightarrow> bool" where
  "binary_string s = (\<forall>c \<in> set s. c = CHR ''0'' \<or> c = CHR ''1'')"

text \<open>The \<open>w\<close> low binary digits of \<open>n\<close>, most significant first.\<close>

fun bits_of :: "nat \<Rightarrow> nat \<Rightarrow> string" where
  "bits_of 0 n = []"
| "bits_of (Suc w) n = bits_of w (n div 2) @ [digit_char (n mod 2)]"

text \<open>
  The doubles that are finite binary32 values: the two zeros, the doubles
  \<open>\<plusminus> M * 2 ^ (E - 23)\<close> with \<open>2 ^ 23 \<le> M < 2 ^ 24\<close> and \<open>-126 \<le> E \<le> 127\<close>
  (exponent field 897 to 1150, the low 29 fraction bits zero), and the doubles
  \<open>\<plusminus> M * 2 ^ -149\<close> with \<open>0 < M < 2 ^ 23\<close> (exponent field 874 to 896, as many
  more low fraction bits zero as the value lies below \<open>2 ^ -126\<close>).
\<close>

definition finite_single :: "pyfloat \<Rightarrow> bool" where
  "finite_single x =
     (let e = d_exponent x; m = d_fraction x
      in (e = 0 \<and> m = 0) \<or>
         (874 \<le> e \<and> e \<le> 896 \<and> m mod 2 ^ (926 - e) = 0) \<or>
         (897 \<le> e \<and> e \<le> 1150 \<and> m mod 2 ^ 29 = 0))"

text \<open>The objects that the constructor builds for \<^verbatim>\<open>1.0\<close> and for \<^verbatim>\<open>float('nan')\<close>.\<close>

definition example_one :: IEEE754SinglePrecision where
  "example_one =
     \<lparr>float_value = float_one,
      binary_representation = ''00111111100000000000000000000000'',
      sign_bit = ''0'', exponent_bits = ''01111111'',
      mantissa_bits = ''00000000000000000000000''\<rparr>"

definition example_nan :: IEEE754SinglePrecision where
  "example_nan =
     \<lparr>float_value = float_nan,
      binary_representation = ''01111111110000000000000000000000'',
      sign_bit = ''0'', exponent_bits = ''11111111'',
      mantissa_bits = ''10000000000000000000000''\<rparr>"

text \<open>
  The positive double \<open>2 ^ -149\<close>, the smallest binary32 subnormal, and the objects that the
  constructor builds for the floats named in the claims.
\<close>

definition float_min_subnormal :: pyfloat where
  "float_min_subnormal = 0x36A0000000000000"

definition example_zero :: IEEE754SinglePrecision where
  "example_zero =
     \<lparr>float_value = float_zero,
      binary_representation = ''00000000000000000000000000000000'',
      sign_bit = ''0'', exponent_bits = ''00000000'',
      mantissa_bits = ''00000000000000000000000''\<rparr>"

definition example_neg_zero :: IEEE754SinglePrecision where
  "example_neg_zero =
     \<lparr>float_value = float_neg_zero,
      binary_representation = ''10000000000000000000000000000000'',
      sign_bit = ''1'', exponent_bits = ''00000000'',
      mantissa_bits = ''00000000000000000000000''\<rparr>"

definition example_inf :: IEEE754SinglePrecision where
  "example_inf =
     \<lparr>float_value = float_inf,
      binary_representation = ''01111111100000000000000000000000'',
      sign_bit = ''0'', exponent_bits = ''11111111'',
      mantissa_bits = ''00000000000000000000000''\<rparr>"

definition example_denormal :: IEEE754SinglePrecision where
  "example_denormal =
     \<lparr>float_value = float_min_subnormal,
      binary_representation = ''00000000000000000000000000000001'',
      sign_bit = ''0'', exponent_bits = ''00000000'',
      mantissa_bits = ''00000000000000000000001''\<rparr>"

text \<open>The value that \<^verbatim>\<open>display\<close> reconstructs, when it reconstructs one.\<close>

definition reconstructed :: "error + display_output \<Rightarrow> rat option" where
  "reconstructed r =
     (case r of
        Inr (Calculation c) \<Rightarrow> Some (shown_calculated c)
      | _ \<Rightarrow> None)"

section \<open>Binary digits\<close>

lemma digit_char_bit: "d < 2 \<Longrightarrow> digit_char d = (if d = 0 then CHR ''0'' else CHR ''1'')"
  by (cases d) (auto simp: digit_char_def)

lemma digit_value_bit [simp]: "digit_value CHR ''0'' = 0" "digit_value CHR ''1'' = 1"
  by (simp_all add: digit_value_def)

lemma length_bits_of [simp]: "length (bits_of w n) = w"
  by (induction w arbitrary: n) auto

lemma bits_of_zero: "bits_of w 0 = replicate w CHR ''0''"
  by (induction w) (auto simp: digit_char_bit replicate_append_same)

lemma binary_string_bits_of: "binary_string (bits_of w n)"
  by (induction w arbitrary: n) (auto simp: binary_string_def digit_char_bit)

lemma length_to_base_le: "n < 2 ^ w \<Longrightarrow> 0 < w \<Longrightarrow> length (to_base 2 n) \<le> w"
proof (induction w arbitrary: n)
  case 0
  then show ?case by simp
next
  case (Suc w)
  show ?case
  proof (cases "n < 2")
    case True
    then show ?thesis by (simp add: to_base.simps [of 2 n])
  next
    case False
    with Suc.prems have "0 < w" by (cases w) auto
    moreover from Suc.prems have "n div 2 < 2 ^ w" by auto
    ultimately have "length (to_base 2 (n div 2)) \<le> w" by (rule Suc.IH [rotated])
    with False show ?thesis by (simp add: to_base.simps [of 2 n])
  qed
qed

lemma zfill_to_base: "n < 2 ^ w \<Longrightarrow> 0 < w \<Longrightarrow> zfill w (to_base 2 n) = bits_of w n"
proof (induction w arbitrary: n)
  case 0
  then show ?case by simp
next
  case (Suc w)
  show ?case
  proof (cases "n < 2")
    case True
    then show ?thesis
      by (simp add: to_base.simps [of 2 n] zfill_def bits_of_zero)
  next
    case False
    with Suc.prems have w: "0 < w" by (cases w) auto
    from Suc.prems have lt: "n div 2 < 2 ^ w" by auto
    have len: "length (to_base 2 (n div 2)) \<le> w" using lt w by (rule length_to_base_le)
    have "zfill w (to_base 2 (n div 2)) = bits_of w (n div 2)" using lt w by (rule Suc.IH)
    with False len show ?thesis
      by (simp add: to_base.simps [of 2 n] zfill_def Suc_diff_le)
  qed
qed

lemma bits_of_add: "bits_of (a + b) n = bits_of a (n div 2 ^ b) @ bits_of b n"
proof (induction b arbitrary: n)
  case 0
  then show ?case by simp
next
  case (Suc b)
  have "n div 2 div 2 ^ b = n div (2 * 2 ^ b)" by (simp add: div_mult2_eq)
  with Suc [of "n div 2"] show ?case by simp
qed

lemma digits_value_snoc: "digits_value b (ds @ [c]) = digits_value b ds * b + digit_value c"
  by (simp add: digits_value_def)

lemma digits_value_bits_of: "digits_value 2 (bits_of w n) = n mod 2 ^ w"
proof (induction w arbitrary: n)
  case 0
  then show ?case by (simp add: digits_value_def)
next
  case (Suc w)
  have "digit_value (digit_char (n mod 2)) = n mod 2"
    by (simp add: digit_char_bit)
  moreover have "n div 2 mod 2 ^ w * 2 + n mod 2 = n mod (2 * 2 ^ w)"
    by (simp add: mod_mult2_eq mult.commute)
  ultimately show ?case using Suc [of "n div 2"]
    by (simp add: digits_value_snoc)
qed

section \<open>Parsing binary digits\<close>

lemma binary_char_facts:
  assumes "c = CHR ''0'' \<or> c = CHR ''1''"
  shows "\<not> py_isspace c" "c \<noteq> CHR ''+''" "c \<noteq> CHR ''-''" "c \<noteq> CHR ''_''"
    "c \<noteq> CHR ''x''" "c \<noteq> CHR ''X''" "c \<noteq> CHR ''o''" "c \<noteq> CHR ''O''"
    "c \<noteq> CHR ''b''" "c \<noteq> CHR ''B''" "digit_value c < 2"
  using assms by (auto simp: py_isspace_def)

lemma binary_string_Cons [simp]:
  "binary_string (c # cs) \<longleftrightarrow> (c = CHR ''0'' \<or> c = CHR ''1'') \<and> binary_string cs"
  by (auto simp: binary_string_def)

lemma binary_string_Nil [simp]: "binary_string []"
  by (simp add: binary_string_def)

lemma binary_string_append [simp]:
  "binary_string (xs @ ys) \<longleftrightarrow> binary_string xs \<and> binary_string ys"
  by (auto simp: binary_string_def)

lemma strip_space_binary: "binary_string s \<Longrightarrow> dropWhile py_isspace s = s"
  by (cases s) (auto simp: binary_char_facts)

lemma strip_sign_binary: "binary_string s \<Longrightarrow> strip_sign s = (False, s)"
  by (cases s) (auto simp: binary_char_facts)

lemma strip_base_prefix_binary: "binary_string s \<Longrightarrow> strip_base_prefix b s = s"
  by (cases "(b, s)" rule: strip_base_prefix.cases) auto

lemma takeWhile_binary:
  "binary_string s \<Longrightarrow> 2 \<le> b \<Longrightarrow> takeWhile (is_digit_or_underscore b) s = s"
  by (induction s) (auto simp: is_digit_or_underscore_def)

lemma dropWhile_binary:
  "binary_string s \<Longrightarrow> 2 \<le> b \<Longrightarrow> dropWhile (is_digit_or_underscore b) s = []"
  by (induction s) (auto simp: is_digit_or_underscore_def)

lemma no_underscore_binary:
  "binary_string s \<Longrightarrow> filter (\<lambda>c. c \<noteq> CHR ''_'') s = s"
  by (induction s) auto

lemma double_underscore_binary: "binary_string s \<Longrightarrow> \<not> double_underscore s"
  by (induction s rule: double_underscore.induct) auto

lemma hd_last_binary:
  "binary_string s \<Longrightarrow> s \<noteq> [] \<Longrightarrow> hd s \<noteq> CHR ''_'' \<and> last s \<noteq> CHR ''_''"
  by (metis binary_char_facts(4) binary_string_def hd_in_set last_in_set)

lemma py_int_binary:
  assumes "binary_string s" "s \<noteq> []" "2 \<le> b"
  shows "py_int b s = Inr (int (digits_value b s))"
  using assms hd_last_binary [of s]
  by (simp add: py_int_def strip_space_binary strip_sign_binary strip_base_prefix_binary
      takeWhile_binary dropWhile_binary no_underscore_binary double_underscore_binary)

lemma digits_value_single: "digits_value b [c] = digit_value c"
  by (simp add: digits_value_def)

section \<open>The fields of a 32-bit pattern\<close>

lemma unat_lt_32: "unat (p :: 32 word) < 2 ^ 32"
  using unsigned_less [of p] by simp

lemma split3:
  fixes n :: nat
  shows "n div 2 ^ (a + b) * 2 ^ (a + b) + n div 2 ^ a mod 2 ^ b * 2 ^ a + n mod 2 ^ a = n"
proof -
  have "n div 2 ^ a = n div 2 ^ a div 2 ^ b * 2 ^ b + n div 2 ^ a mod 2 ^ b"
    by (rule div_mult_mod_eq [symmetric])
  also have "n div 2 ^ a div 2 ^ b = n div 2 ^ (a + b)"
    by (simp add: div_mult2_eq power_add)
  finally have "n div 2 ^ a * 2 ^ a = (n div 2 ^ (a + b) * 2 ^ b + n div 2 ^ a mod 2 ^ b) * 2 ^ a"
    by simp
  also have "\<dots> = n div 2 ^ (a + b) * 2 ^ (a + b) + n div 2 ^ a mod 2 ^ b * 2 ^ a"
    by (simp add: algebra_simps power_add)
  finally have "n div 2 ^ a * 2 ^ a =
      n div 2 ^ (a + b) * 2 ^ (a + b) + n div 2 ^ a mod 2 ^ b * 2 ^ a" .
  moreover have "n div 2 ^ a * 2 ^ a + n mod 2 ^ a = n"
    by (rule div_mult_mod_eq)
  ultimately show ?thesis by (simp only:)
qed

lemma f_fields_sum: "f_sign p * 2 ^ 31 + f_exponent p * 2 ^ 23 + f_fraction p = unat p"
  using split3 [of "unat p" 23 8] by (simp add: f_sign_def f_exponent_def f_fraction_def)

lemma format_032b_pattern: "format_032b (unpack_I p) = bits_of 32 (unat p)"
proof -
  have "nat (uint p) = unat p" by simp
  moreover have "\<not> uint p < 0" by simp
  ultimately show ?thesis
    using zfill_to_base [of "unat p" 32] unat_lt_32 [of p]
    by (simp add: format_032b_def unpack_I_def)
qed

lemma bits_of_32_split:
  "bits_of 32 n = bits_of 1 (n div 2 ^ 31) @ bits_of 8 (n div 2 ^ 23) @ bits_of 23 n"
proof -
  have "bits_of 32 n = bits_of (9 + 23) n" by simp
  also have "\<dots> = bits_of 9 (n div 2 ^ 23) @ bits_of 23 n" by (rule bits_of_add)
  also have "bits_of 9 (n div 2 ^ 23) = bits_of (1 + 8) (n div 2 ^ 23)" by simp
  also have "\<dots> = bits_of 1 (n div 2 ^ 23 div 2 ^ 8) @ bits_of 8 (n div 2 ^ 23)"
    by (rule bits_of_add)
  also have "n div 2 ^ 23 div 2 ^ 8 = n div 2 ^ 31"
    by (simp add: div_mult2_eq [symmetric])
  finally show ?thesis by simp
qed

lemma bits_of_1: "bits_of 1 k = [digit_char (k mod 2)]"
  by simp

lemma pattern_slices:
  fixes n :: nat
  defines "b \<equiv> bits_of 32 n"
  shows "str_index b 0 = Inr (bits_of 1 (n div 2 ^ 31))"
    and "slice b 1 9 = bits_of 8 (n div 2 ^ 23)"
    and "slice b 9 32 = bits_of 23 n"
proof -
  let ?s = "bits_of 1 (n div 2 ^ 31)" and ?e = "bits_of 8 (n div 2 ^ 23)" and ?m = "bits_of 23 n"
  have b: "b = ?s @ ?e @ ?m" unfolding b_def by (rule bits_of_32_split)
  show "str_index b 0 = Inr ?s" by (simp add: b str_index_def bits_of_1)
  show "slice b 1 9 = ?e" by (simp add: b slice_def)
  show "slice b 9 32 = ?m" by (simp add: b slice_def)
qed

lemma init_pattern:
  assumes "pack_f v = Inr p"
  shows "init v = Inr \<lparr>float_value = v, binary_representation = bits_of 32 (unat p),
           sign_bit = bits_of 1 (unat p div 2 ^ 31),
           exponent_bits = bits_of 8 (unat p div 2 ^ 23),
           mantissa_bits = bits_of 23 (unat p)\<rparr>"
proof -
  have "get_binary_representation v = Inr (bits_of 32 (unat p))"
    using assms by (simp add: get_binary_representation_def format_032b_pattern)
  then show ?thesis
    unfolding init_def by (simp only: pattern_slices sum.case)
qed

lemma init_cases:
  assumes "init v = Inr self"
  obtains p where "pack_f v = Inr p"
    and "self = \<lparr>float_value = v, binary_representation = bits_of 32 (unat p),
           sign_bit = bits_of 1 (unat p div 2 ^ 31),
           exponent_bits = bits_of 8 (unat p div 2 ^ 23),
           mantissa_bits = bits_of 23 (unat p)\<rparr>"
proof (cases "pack_f v")
  case (Inl e)
  with assms show ?thesis by (simp add: init_def get_binary_representation_def)
next
  case (Inr p)
  with assms init_pattern [OF Inr] that show ?thesis by simp
qed

lemma py_int_bits_of:
  "0 < w \<Longrightarrow> py_int 2 (bits_of w n) = Inr (int (n mod 2 ^ w))"
proof -
  assume "0 < w"
  then have "length (bits_of w n) \<noteq> 0" by simp
  then have "bits_of w n \<noteq> []" by (simp only: length_0_conv not_False_eq_True)
  then have "py_int 2 (bits_of w n) = Inr (int (digits_value 2 (bits_of w n)))"
    using binary_string_bits_of by (intro py_int_binary) simp_all
  then show ?thesis by (simp only: digits_value_bits_of)
qed

lemma py_int_sign_bit:
  "py_int 10 (bits_of 1 n) = Inr (int (n mod 2))"
proof -
  have "bits_of 1 n = [digit_char (n mod 2)]" by (rule bits_of_1)
  moreover have "binary_string [digit_char (n mod 2)]" by (simp add: digit_char_bit)
  moreover have "digit_value (digit_char (n mod 2)) = n mod 2" by (simp add: digit_char_bit)
  ultimately show ?thesis
    using py_int_binary [of "[digit_char (n mod 2)]" 10] by (simp add: digits_value_single)
qed

section \<open>Conversions between binary64 and binary32\<close>

lemma unat_lt_64: "unat (x :: 64 word) < 2 ^ 64"
  using unsigned_less [of x] by simp

lemma d_fields_sum: "d_sign x * 2 ^ 63 + d_exponent x * 2 ^ 52 + d_fraction x = unat x"
  using split3 [of "unat x" 52 11] by (simp add: d_sign_def d_exponent_def d_fraction_def)

lemma d_sign_lt: "d_sign x < 2"
  using unat_lt_64 [of x] by (simp add: d_sign_def less_mult_imp_div_less)

lemma f_sign_lt: "f_sign y < 2"
  using unat_lt_32 [of y] by (simp add: f_sign_def less_mult_imp_div_less)

lemma d_compose: "word_of_nat (d_sign x * 2 ^ 63 + d_exponent x * 2 ^ 52 + d_fraction x) = x"
  by (simp only: d_fields_sum) simp

lemma f_fields_compose:
  assumes "s < 2" "body < 2 ^ 31"
  defines "y \<equiv> (word_of_nat (s * 2 ^ 31 + body) :: 32 word)"
  shows "f_sign y = s" "f_exponent y = body div 2 ^ 23" "f_fraction y = body mod 2 ^ 23"
proof -
  from assms(1,2) have lt: "s * 2 ^ 31 + body < 2 ^ 32" by simp
  have u: "unat y = s * 2 ^ 31 + body"
    unfolding y_def by (rule of_nat_inverse [OF refl]) (use lt in simp)
  show "f_sign y = s" using assms(2) by (simp add: f_sign_def u)
  have "(s * 2 ^ 31 + body) div 2 ^ 23 = s * 2 ^ 8 + body div 2 ^ 23"
    by (simp add: div_add1_eq)
  moreover have "body div 2 ^ 23 < 2 ^ 8"
    using assms(2) by (simp add: less_mult_imp_div_less)
  ultimately show "f_exponent y = body div 2 ^ 23"
    by (simp add: f_exponent_def u)
  have "s * 2 ^ 31 + body = body + s * 2 ^ 8 * 2 ^ 23"
    by simp
  then have "(s * 2 ^ 31 + body) mod 2 ^ 23 = body mod 2 ^ 23"
    by (simp only: mod_mult_self1)
  then show "f_fraction y = body mod 2 ^ 23"
    by (simp add: f_fraction_def u)
qed

lemma bit_length_eq: "2 ^ k \<le> q \<Longrightarrow> q < 2 ^ Suc k \<Longrightarrow> bit_length q = Suc k"
proof (induction k arbitrary: q)
  case 0
  then have "q = Suc 0" by simp
  then show ?case by (simp add: bit_length.simps [of "Suc 0"] bit_length.simps [of 0])
next
  case (Suc k)
  from Suc.prems have "2 ^ k \<le> q div 2" "q div 2 < 2 ^ Suc k" by auto
  then have "bit_length (q div 2) = Suc k" by (rule Suc.IH)
  moreover from Suc.prems have "q \<noteq> 0" by auto
  ultimately show ?case by (simp add: bit_length.simps [of q])
qed

lemma d_fraction_lt: "d_fraction x < 2 ^ 52"
  by (simp add: d_fraction_def)

lemma round_half_even_exact:
  assumes "n mod 2 ^ k = 0"
  shows "round_half_even n k = n div 2 ^ k"
  using assms by (simp add: round_half_even_def)

lemma pack_f_finite:
  assumes "f_exponent (float_of_double x) \<noteq> 255"
  shows "pack_f x = Inr (float_of_double x)"
  using assms by (simp add: pack_f_def f_isinf_def)

lemma round_trip_zero:
  assumes e: "d_exponent x = 0" and m: "d_fraction x = 0"
  shows "pack_f x = Inr (float_of_double x)" and "unpack_f (float_of_double x) = x"
proof -
  let ?y = "float_of_double x"
  have y: "?y = word_of_nat (d_sign x * 2 ^ 31 + 0)"
    by (simp add: float_of_double_def e m)
  have f: "f_sign ?y = d_sign x" "f_exponent ?y = 0" "f_fraction ?y = 0"
    unfolding y using f_fields_compose [of "d_sign x" 0] d_sign_lt [of x] by simp_all
  show "pack_f x = Inr ?y" by (rule pack_f_finite) (simp add: f)
  have "unpack_f ?y = word_of_nat (d_sign x * 2 ^ 63 + d_exponent x * 2 ^ 52 + d_fraction x)"
    by (simp add: unpack_f_def double_of_float_def f e m)
  then show "unpack_f ?y = x" by (simp only: d_compose)
qed

lemma round_trip_normal:
  assumes e: "897 \<le> d_exponent x" "d_exponent x \<le> 1150" and m: "d_fraction x mod 2 ^ 29 = 0"
  shows "pack_f x = Inr (float_of_double x)" and "unpack_f (float_of_double x) = x"
proof -
  let ?y = "float_of_double x"
  define ex where "ex = d_exponent x"
  define fr where "fr = d_fraction x div 2 ^ 29"
  have fr_lt: "fr < 2 ^ 23"
    unfolding fr_def using d_fraction_lt [of x] by (simp add: less_mult_imp_div_less)
  have fr_mult: "fr * 2 ^ 29 = d_fraction x"
    unfolding fr_def using m by (simp add: mod_eq_0_iff_dvd)
  have ex: "897 \<le> ex" "ex \<le> 1150" using e by (simp_all add: ex_def)
  have "(2 ^ 52 + d_fraction x) mod 2 ^ 29 = 0"
    using m by (simp add: mod_eq_0_iff_dvd)
  then have "round_half_even (2 ^ 52 + d_fraction x) 29 = (2 ^ 52 + d_fraction x) div 2 ^ 29"
    by (rule round_half_even_exact)
  also have "\<dots> = 2 ^ 23 + fr"
    unfolding fr_def by (simp add: div_add1_eq m)
  finally have r: "round_half_even (2 ^ 52 + d_fraction x) 29 = 2 ^ 23 + fr" .
  have body: "(ex - 897) * 2 ^ 23 + (2 ^ 23 + fr) = (ex - 896) * 2 ^ 23 + fr"
    using ex by (simp add: algebra_simps)
  have body_lt: "(ex - 896) * 2 ^ 23 + fr < 255 * 2 ^ 23"
  proof -
    have "(ex - 896) * 2 ^ 23 \<le> 254 * 2 ^ 23" using ex by simp
    with fr_lt show ?thesis by simp
  qed
  have "897 \<le> ex \<Longrightarrow> (ex - 897) * 2 ^ 23 + (2 ^ 23 + fr) < 255 * 2 ^ 23"
    using body_lt body by simp
  then have y: "?y = word_of_nat (d_sign x * 2 ^ 31 + ((ex - 896) * 2 ^ 23 + fr))"
    unfolding float_of_double_def Let_def
    by (intro arg_cong [where f = word_of_nat])
      (use ex r body in \<open>simp add: ex_def [symmetric]\<close>)
  have f_all: "f_sign ?y = d_sign x"
    "f_exponent ?y = ((ex - 896) * 2 ^ 23 + fr) div 2 ^ 23"
    "f_fraction ?y = ((ex - 896) * 2 ^ 23 + fr) mod 2 ^ 23"
    unfolding y using body_lt d_sign_lt [of x]
    by (intro f_fields_compose; simp)+
  have f: "f_exponent ?y = ex - 896" "f_fraction ?y = fr"
    using fr_lt by (simp_all add: f_all)
  show "pack_f x = Inr ?y" by (rule pack_f_finite) (use ex in \<open>simp add: f\<close>)
  have ne: "ex - 896 \<noteq> 255" "ex - 896 \<noteq> 0" "ex - 896 + 896 = d_exponent x"
    using ex by (simp_all add: ex_def)
  have "unpack_f ?y = word_of_nat (d_sign x * 2 ^ 63 + d_exponent x * 2 ^ 52 + d_fraction x)"
    unfolding unpack_f_def double_of_float_def Let_def
    by (intro arg_cong [where f = word_of_nat])
      (use ne fr_mult in \<open>simp add: f f_all(1)\<close>)
  then show "unpack_f ?y = x" by (simp only: d_compose)
qed

lemma round_trip_subnormal:
  assumes e: "874 \<le> d_exponent x" "d_exponent x \<le> 896"
    and m: "d_fraction x mod 2 ^ (926 - d_exponent x) = 0"
  shows "pack_f x = Inr (float_of_double x)" and "unpack_f (float_of_double x) = x"
proof -
  let ?y = "float_of_double x"
  define ex where "ex = d_exponent x"
  define sh where "sh = 926 - ex"
  define k where "k = ex - 874"
  define fr where "fr = d_fraction x div 2 ^ sh"
  have ex: "874 \<le> ex" "ex \<le> 896" using e by (simp_all add: ex_def)
  have k: "k \<le> 22" "k + sh = 52" "k + 874 = ex" "52 - k = sh"
    using ex by (simp_all add: k_def sh_def)
  have pow: "(2::nat) ^ 52 = 2 ^ k * 2 ^ sh"
    using k(2) by (simp add: power_add [symmetric])
  have fr_mult: "fr * 2 ^ sh = d_fraction x"
    unfolding fr_def using m by (simp add: mod_eq_0_iff_dvd sh_def ex_def)
  have "fr * 2 ^ sh < 2 ^ k * 2 ^ sh"
    using d_fraction_lt [of x] by (simp only: fr_mult pow [symmetric])
  then have fr_lt: "fr < 2 ^ k" by simp
  have whole: "2 ^ 52 + d_fraction x = (2 ^ k + fr) * 2 ^ sh"
    by (simp only: pow fr_mult [symmetric] distrib_right)
  have "round_half_even (2 ^ 52 + d_fraction x) sh = (2 ^ 52 + d_fraction x) div 2 ^ sh"
    by (rule round_half_even_exact) (simp only: whole mod_mult_self2_is_0)
  also have "\<dots> = 2 ^ k + fr"
    by (simp only: whole) simp
  finally have r: "round_half_even (2 ^ 52 + d_fraction x) sh = 2 ^ k + fr" .
  have q_lt': "2 ^ k + fr < 2 ^ Suc k" using fr_lt by simp
  also have "(2::nat) ^ Suc k \<le> 2 ^ 23"
    using k(1) by (intro power_increasing) simp_all
  finally have q_lt: "2 ^ k + fr < 2 ^ 23" .
  then have q_lt31: "2 ^ k + fr < 2 ^ 31" by simp
  have y: "?y = word_of_nat (d_sign x * 2 ^ 31 + (2 ^ k + fr))"
    unfolding float_of_double_def Let_def
    by (intro arg_cong [where f = word_of_nat])
      (use ex r in \<open>simp add: ex_def [symmetric] sh_def [symmetric]\<close>)
  have f_all: "f_sign ?y = d_sign x"
    "f_exponent ?y = (2 ^ k + fr) div 2 ^ 23"
    "f_fraction ?y = (2 ^ k + fr) mod 2 ^ 23"
    unfolding y using q_lt31 d_sign_lt [of x]
    by (intro f_fields_compose; simp)+
  have f: "f_exponent ?y = 0" "f_fraction ?y = 2 ^ k + fr"
    using q_lt by (simp_all add: f_all)
  show "pack_f x = Inr ?y" by (rule pack_f_finite) (simp add: f)
  have bl: "bit_length (2 ^ k + fr) - 1 = k"
    using bit_length_eq [of k "2 ^ k + fr"] q_lt' by simp
  have "unpack_f ?y = word_of_nat (d_sign x * 2 ^ 63 + d_exponent x * 2 ^ 52 + d_fraction x)"
    unfolding unpack_f_def double_of_float_def Let_def
    by (intro arg_cong [where f = word_of_nat])
      (use k fr_mult bl in \<open>simp add: f f_all(1) ex_def [symmetric] algebra_simps\<close>)
  then show "unpack_f ?y = x" by (simp only: d_compose)
qed

lemma finite_single_round_trip:
  assumes "finite_single x"
  shows "pack_f x = Inr (float_of_double x) \<and> unpack_f (float_of_double x) = x"
proof -
  from assms consider
      (zero) "d_exponent x = 0" "d_fraction x = 0"
    | (subnormal) "874 \<le> d_exponent x" "d_exponent x \<le> 896"
        "d_fraction x mod 2 ^ (926 - d_exponent x) = 0"
    | (normal) "897 \<le> d_exponent x" "d_exponent x \<le> 1150" "d_fraction x mod 2 ^ 29 = 0"
    unfolding finite_single_def Let_def by auto
  then show ?thesis
  proof cases
    case zero
    then show ?thesis by (simp only: round_trip_zero)
  next
    case subnormal
    then show ?thesis by (simp only: round_trip_subnormal)
  next
    case normal
    then show ?thesis by (simp only: round_trip_normal)
  qed
qed

lemma bits_of_numeral:
  "bits_of (numeral k) n = bits_of (pred_numeral k) (n div 2) @ [digit_char (n mod 2)]"
  by (simp add: numeral_eq_Suc)

lemma bits_of_mod: "bits_of w (n mod 2 ^ w) = bits_of w n"
proof (induction w arbitrary: n)
  case 0
  then show ?case by simp
next
  case (Suc w)
  have "n mod (2 * 2 ^ w) div 2 = n div 2 mod 2 ^ w"
    by (simp add: mod_mult2_eq)
  moreover have "n mod (2 * 2 ^ w) mod 2 = n mod 2"
    by (simp add: mod_mod_cancel)
  ultimately show ?case using Suc [of "n div 2"] by simp
qed

lemma init_fields:
  assumes "pack_f v = Inr p"
  shows "init v = Inr \<lparr>float_value = v, binary_representation = bits_of 32 (unat p),
           sign_bit = bits_of 1 (f_sign p),
           exponent_bits = bits_of 8 (f_exponent p),
           mantissa_bits = bits_of 23 (f_fraction p)\<rparr>"
proof -
  have "bits_of 1 (unat p div 2 ^ 31) = bits_of 1 (f_sign p)"
    by (simp only: f_sign_def)
  moreover have "bits_of 8 (unat p div 2 ^ 23) = bits_of 8 (f_exponent p)"
    unfolding f_exponent_def by (rule bits_of_mod [symmetric])
  moreover have "bits_of 23 (unat p) = bits_of 23 (f_fraction p)"
    unfolding f_fraction_def by (rule bits_of_mod [symmetric])
  ultimately show ?thesis
    using init_pattern [OF assms] by (simp only:)
qed

lemma f_exponent_lt: "f_exponent p < 2 ^ 8"
  by (simp add: f_exponent_def)

lemma f_fraction_lt: "f_fraction p < 2 ^ 23"
  by (simp add: f_fraction_def)

lemma py_int_bits_of_lt:
  "0 < w \<Longrightarrow> n < 2 ^ w \<Longrightarrow> py_int 2 (bits_of w n) = Inr (int n)"
  by (simp add: py_int_bits_of)

lemma py_int_sign_bit_lt: "n < 2 \<Longrightarrow> py_int 10 [digit_char n] = Inr (int n)"
  using py_int_sign_bit [of n] by simp

lemma uint_fields: "int (f_sign p) * 2 ^ 31 + int (f_exponent p) * 2 ^ 23 + int (f_fraction p) = uint p"
proof -
  have "int (f_sign p * 2 ^ 31 + f_exponent p * 2 ^ 23 + f_fraction p) = int (unat p)"
    by (simp only: f_fields_sum)
  then show ?thesis by simp
qed

section \<open>What the accessors read from a constructed object\<close>

lemma init_accessors:
  assumes "init v = Inr self" and "pack_f v = Inr p"
  shows "get_sign self = Inr (int (f_sign p))"
    and "get_exponent_raw self = Inr (int (f_exponent p))"
    and "py_int 2 (mantissa_bits self) = Inr (int (f_fraction p))"
    and "py_int 2 (binary_representation self) = Inr (uint p)"
proof -
  from assms(1) init_fields [OF assms(2)]
  have self: "self = \<lparr>float_value = v, binary_representation = bits_of 32 (unat p),
           sign_bit = bits_of 1 (f_sign p), exponent_bits = bits_of 8 (f_exponent p),
           mantissa_bits = bits_of 23 (f_fraction p)\<rparr>"
    by simp
  show "py_int 2 (binary_representation self) = Inr (uint p)"
    using py_int_bits_of_lt [of 32 "unat p"] unat_lt_32 [of p] by (simp add: self)
  show "get_sign self = Inr (int (f_sign p))"
    using f_sign_lt [of p] by (simp add: self get_sign_def py_int_sign_bit_lt)
  show "get_exponent_raw self = Inr (int (f_exponent p))"
    using f_exponent_lt [of p] by (simp add: self get_exponent_raw_def py_int_bits_of_lt)
  show "py_int 2 (mantissa_bits self) = Inr (int (f_fraction p))"
    using f_fraction_lt [of p] by (simp add: self py_int_bits_of_lt)
qed

lemma is_special_fields:
  assumes "get_exponent_raw self = Inr e" "py_int 2 (mantissa_bits self) = Inr m"
  shows "is_special self =
     Inr (if e = 255 \<and> m = 0 then Some ''Infinity''
          else if e = 255 \<and> m \<noteq> 0 then Some ''NaN''
          else if e = 0 \<and> m = 0 then Some ''Zero''
          else if e = 0 \<and> m \<noteq> 0 then Some ''Denormalized''
          else None)"
  using assms by (simp add: is_special_def)

lemma is_special_bits:
  assumes "e < 2 ^ 8" "m < 2 ^ 23"
    and "exponent_bits self = bits_of 8 e" "mantissa_bits self = bits_of 23 m"
  shows "get_exponent_raw self = Inr (int e)"
    and "py_int 2 (mantissa_bits self) = Inr (int m)"
    and "is_special self =
           Inr (if e = 255 \<and> m = 0 then Some ''Infinity''
                else if e = 255 \<and> m \<noteq> 0 then Some ''NaN''
                else if e = 0 \<and> m = 0 then Some ''Zero''
                else if e = 0 \<and> m \<noteq> 0 then Some ''Denormalized''
                else None)"
proof -
  show e: "get_exponent_raw self = Inr (int e)"
    using assms(1) by (simp add: get_exponent_raw_def assms(3) py_int_bits_of_lt)
  show m: "py_int 2 (mantissa_bits self) = Inr (int m)"
    using assms(2) by (simp add: assms(4) py_int_bits_of_lt)
  show "is_special self =
           Inr (if e = 255 \<and> m = 0 then Some ''Infinity''
                else if e = 255 \<and> m \<noteq> 0 then Some ''NaN''
                else if e = 0 \<and> m = 0 then Some ''Zero''
                else if e = 0 \<and> m \<noteq> 0 then Some ''Denormalized''
                else None)"
    using is_special_fields [OF e m] by simp
qed

section \<open>The mantissa value\<close>

text \<open>
  The loop adds \<open>2 ^ -(j + 1)\<close> for every character \<^verbatim>\<open>1\<close> at index \<open>j\<close>. After any
  number \<open>n\<close> of characters the sum is \<open>k / 2 ^ n\<close> with \<open>k < 2 ^ n\<close>
  (\<open>mantissa_loop_dyadic\<close>): for the 23 characters of a constructed object these are
  numbers that binary64 represents, which is why the loop is modelled without rounding.
\<close>

lemma mantissa_loop_sum:
  "mantissa_loop i bits acc =
     acc + (\<Sum>j<length bits. (if bits ! j = CHR ''1'' then 1 else 0) / 2 ^ (i + j + 1))"
proof (induction bits arbitrary: i acc)
  case Nil
  then show ?case by simp
next
  case (Cons b bits)
  let ?g = "\<lambda>j. (if (b # bits) ! j = CHR ''1'' then 1 else 0) / (2 :: rat) ^ (i + j + 1)"
  have "(\<Sum>j<length (b # bits). ?g j) = ?g 0 + (\<Sum>j<length bits. ?g (Suc j))"
    by (simp only: length_Cons sum.lessThan_Suc_shift)
  also have "(\<Sum>j<length bits. ?g (Suc j)) =
      (\<Sum>j<length bits. (if bits ! j = CHR ''1'' then 1 else 0) / 2 ^ (i + 1 + j + 1))"
    by (rule sum.cong) simp_all
  finally have "(\<Sum>j<length (b # bits). ?g j) =
      ?g 0 + (\<Sum>j<length bits. (if bits ! j = CHR ''1'' then 1 else 0) / 2 ^ (i + 1 + j + 1))" .
  moreover have "mantissa_loop i (b # bits) acc =
      (if b = CHR ''1'' then acc + 1 / 2 ^ (i + 1) else acc) +
      (\<Sum>j<length bits. (if bits ! j = CHR ''1'' then 1 else 0) / 2 ^ (i + 1 + j + 1))"
    by (simp only: mantissa_loop.simps Cons.IH)
  ultimately show ?case by simp
qed

lemma mantissa_loop_append:
  "mantissa_loop i (xs @ ys) acc = mantissa_loop (i + length xs) ys (mantissa_loop i xs acc)"
  by (induction xs arbitrary: i acc) simp_all

lemma mantissa_loop_dyadic:
  "\<exists>k < 2 ^ length bits. mantissa_loop 0 bits 0 = of_nat k / 2 ^ length bits"
proof (induction bits rule: rev_induct)
  case Nil
  then show ?case by simp
next
  case (snoc c bits)
  then obtain k where k: "k < 2 ^ length bits"
    and sum: "mantissa_loop 0 bits 0 = of_nat k / 2 ^ length bits"
    by blast
  let ?b = "if c = CHR ''1'' then 1 else 0 :: nat"
  have "mantissa_loop 0 (bits @ [c]) 0 = of_nat k / 2 ^ length bits + of_nat ?b / 2 ^ Suc (length bits)"
    by (simp add: mantissa_loop_append sum)
  also have "\<dots> = of_nat (2 * k + ?b) / 2 ^ Suc (length bits)"
    by (simp add: add_divide_distrib)
  finally have "mantissa_loop 0 (bits @ [c]) 0 = of_nat (2 * k + ?b) / 2 ^ length (bits @ [c])"
    by simp
  moreover have "2 * k + ?b < 2 ^ length (bits @ [c])"
    using k by simp
  ultimately show ?case by blast
qed

lemma bits_of_nth:
  "j < w \<Longrightarrow> bits_of w n ! j = digit_char (n div 2 ^ (w - 1 - j) mod 2)"
proof (induction w arbitrary: n)
  case 0
  then show ?case by simp
next
  case (Suc w)
  show ?case
  proof (cases "j < w")
    case True
    then have "bits_of w (n div 2) ! j = digit_char (n div 2 div 2 ^ (w - 1 - j) mod 2)"
      by (rule Suc.IH)
    moreover have "n div 2 div 2 ^ (w - 1 - j) = n div 2 ^ (w - j)"
      using True by (simp add: div_mult2_eq [symmetric] power_Suc [symmetric] Suc_diff_Suc
          del: power_Suc)
    ultimately show ?thesis using True by (simp add: nth_append)
  next
    case False
    with Suc.prems have "j = w" by simp
    then show ?thesis by (simp add: nth_append)
  qed
qed

lemma digit_char_one: "digit_char (k mod 2) = CHR ''1'' \<longleftrightarrow> odd k"
  by (cases "even k") (simp_all add: digit_char_bit mod_2_eq_odd)

lemma bits_of_nth_bit:
  fixes p :: "32 word"
  assumes "j < 23"
  shows "bits_of 23 (unat p) ! j = CHR ''1'' \<longleftrightarrow> bit p (22 - j)"
proof -
  have "bit p (22 - j) \<longleftrightarrow> bit (unat p) (22 - j)"
    by (simp add: bit_unsigned_iff)
  also have "\<dots> \<longleftrightarrow> odd (unat p div 2 ^ (22 - j))"
    by (rule bit_iff_odd)
  finally show ?thesis
    using assms by (simp add: bits_of_nth digit_char_one)
qed

lemma sum_shift_1_23:
  fixes g :: "nat \<Rightarrow> rat"
  shows "(\<Sum>j<23. g j / 2 ^ (0 + j + 1)) = (\<Sum>i = 1..23. g (i - 1) / 2 ^ i)"
  by (rule sum.reindex_bij_witness [where i = "\<lambda>i. i - 1" and j = Suc]) auto

lemma mantissa_loop_bits_of:
  "mantissa_loop 0 (bits_of w n) 0 = of_nat (n mod 2 ^ w) / 2 ^ w"
proof (induction w arbitrary: n)
  case 0
  then show ?case by simp
next
  case (Suc w)
  have split: "n mod 2 ^ Suc w = 2 * (n div 2 mod 2 ^ w) + n mod 2"
    by (simp add: mod_mult2_eq)
  have "mantissa_loop 0 (bits_of (Suc w) n) 0 =
      of_nat (n div 2 mod 2 ^ w) / 2 ^ w + of_nat (n mod 2) / 2 ^ Suc w"
    by (cases "even n") (simp_all add: mantissa_loop_append Suc.IH digit_char_bit mod_2_eq_odd)
  also have "\<dots> = of_nat (2 * (n div 2 mod 2 ^ w) + n mod 2) / 2 ^ Suc w"
    by (simp add: add_divide_distrib)
  finally show ?case by (simp only: split)
qed

lemma mantissa_value_closed:
  assumes "init v = Inr self" and "pack_f v = Inr p"
  shows "get_mantissa_value self = 1 + of_nat (f_fraction p) / 2 ^ 23"
proof -
  from assms init_pattern [OF assms(2)]
  have "mantissa_bits self = bits_of 23 (unat p)" by auto
  then show ?thesis
    by (simp only: get_mantissa_value_def mantissa_loop_bits_of f_fraction_def)
qed

section \<open>From binary32 back to binary64\<close>

text \<open>
  Widening a binary32 pattern and narrowing the double again gives the pattern back,
  for every pattern but a signalling NaN, which the conversions make quiet; and the
  doubles of \<open>finite_single\<close> are exactly the widened finite patterns.
\<close>

lemma d_fields_compose:
  assumes "s < 2" "body < 2 ^ 63"
  defines "x \<equiv> (word_of_nat (s * 2 ^ 63 + body) :: 64 word)"
  shows "d_sign x = s" "d_exponent x = body div 2 ^ 52" "d_fraction x = body mod 2 ^ 52"
proof -
  from assms(1,2) have lt: "s * 2 ^ 63 + body < 2 ^ 64" by simp
  have u: "unat x = s * 2 ^ 63 + body"
    unfolding x_def by (rule of_nat_inverse [OF refl]) (use lt in simp)
  show "d_sign x = s" using assms(2) by (simp add: d_sign_def u)
  have "(s * 2 ^ 63 + body) div 2 ^ 52 = s * 2 ^ 11 + body div 2 ^ 52"
    by (simp add: div_add1_eq)
  moreover have "body div 2 ^ 52 < 2 ^ 11"
    using assms(2) by (simp add: less_mult_imp_div_less)
  ultimately show "d_exponent x = body div 2 ^ 52"
    by (simp add: d_exponent_def u)
  have "s * 2 ^ 63 + body = body + s * 2 ^ 11 * 2 ^ 52"
    by simp
  then have "(s * 2 ^ 63 + body) mod 2 ^ 52 = body mod 2 ^ 52"
    by (simp only: mod_mult_self1)
  then show "d_fraction x = body mod 2 ^ 52"
    by (simp add: d_fraction_def u)
qed

lemma f_compose: "word_of_nat (f_sign p * 2 ^ 31 + f_exponent p * 2 ^ 23 + f_fraction p) = p"
  by (simp only: f_fields_sum) simp

lemma bit_length_bounds:
  assumes "0 < m"
  shows "2 ^ (bit_length m - 1) \<le> m \<and> m < 2 ^ bit_length m \<and> 0 < bit_length m"
  using assms
proof (induction m rule: less_induct)
  case (less m)
  show ?case
  proof (cases "m div 2 = 0")
    case True
    with less.prems have "m = 1" by (simp add: div_eq_0_iff)
    then show ?thesis by (simp add: bit_length.simps [of "Suc 0"] bit_length.simps [of 0])
  next
    case False
    then have pos: "0 < m div 2" by simp
    with less.prems have "m div 2 < m" by simp
    from less.IH [OF this pos]
    have IH: "2 ^ (bit_length (m div 2) - 1) \<le> m div 2" "m div 2 < 2 ^ bit_length (m div 2)"
      "0 < bit_length (m div 2)" by simp_all
    have bl: "bit_length m = Suc (bit_length (m div 2))"
      using less.prems by (simp add: bit_length.simps [of m])
    from IH(3) have "(2::nat) ^ bit_length (m div 2) = 2 * 2 ^ (bit_length (m div 2) - 1)"
      by (cases "bit_length (m div 2)") simp_all
    with IH(1) have "2 ^ bit_length (m div 2) \<le> 2 * (m div 2)" by simp
    also have "\<dots> \<le> m" by simp
    finally have lower: "2 ^ (bit_length m - 1) \<le> m" by (simp add: bl)
    from IH(2) have "m < 2 * 2 ^ bit_length (m div 2)" by (simp add: less_mult_imp_div_less mult.commute)
    with lower show ?thesis by (simp add: bl)
  qed
qed

lemma d_fields_build:
  assumes "s < 2" "E < 2 ^ 11" "F < 2 ^ 52"
  defines "x \<equiv> (word_of_nat (s * 2 ^ 63 + (E * 2 ^ 52 + F)) :: 64 word)"
  shows "d_sign x = s" "d_exponent x = E" "d_fraction x = F"
proof -
  have "E * 2 ^ 52 \<le> (2 ^ 11 - 1) * 2 ^ 52" using assms(2) by simp
  with assms(3) have body: "E * 2 ^ 52 + F < 2 ^ 63" by simp
  show "d_sign x = s" unfolding x_def using assms(1) body by (rule d_fields_compose)
  have "d_exponent x = (E * 2 ^ 52 + F) div 2 ^ 52"
    unfolding x_def using assms(1) body by (rule d_fields_compose)
  then show "d_exponent x = E" using assms(3) by simp
  have "d_fraction x = (E * 2 ^ 52 + F) mod 2 ^ 52"
    unfolding x_def using assms(1) body by (rule d_fields_compose)
  then show "d_fraction x = F" using assms(3) by simp
qed

lemma unpack_f_zero:
  assumes "f_exponent p = 0" "f_fraction p = 0"
  shows "d_sign (unpack_f p) = f_sign p" "d_exponent (unpack_f p) = 0" "d_fraction (unpack_f p) = 0"
proof -
  have "unpack_f p = word_of_nat (f_sign p * 2 ^ 63 + (0 * 2 ^ 52 + 0))"
    by (simp add: unpack_f_def double_of_float_def assms)
  then show "d_sign (unpack_f p) = f_sign p" "d_exponent (unpack_f p) = 0"
    "d_fraction (unpack_f p) = 0"
    using d_fields_build [of "f_sign p" 0 0] f_sign_lt [of p] by simp_all
qed

lemma unpack_f_normal:
  assumes "0 < f_exponent p" "f_exponent p < 255"
  shows "d_sign (unpack_f p) = f_sign p" "d_exponent (unpack_f p) = f_exponent p + 896"
    "d_fraction (unpack_f p) = f_fraction p * 2 ^ 29"
proof -
  have x: "unpack_f p =
      word_of_nat (f_sign p * 2 ^ 63 + ((f_exponent p + 896) * 2 ^ 52 + f_fraction p * 2 ^ 29))"
    unfolding unpack_f_def double_of_float_def Let_def
    by (intro arg_cong [where f = word_of_nat]) (use assms in simp)
  have E: "f_exponent p + 896 < 2 ^ 11" using assms(2) by simp
  have "f_fraction p * 2 ^ 29 < 2 ^ 23 * 2 ^ 29"
    using f_fraction_lt [of p] by (simp only: mult_less_cancel2) simp
  then have F: "f_fraction p * 2 ^ 29 < 2 ^ 52" by simp
  show "d_sign (unpack_f p) = f_sign p" "d_exponent (unpack_f p) = f_exponent p + 896"
    "d_fraction (unpack_f p) = f_fraction p * 2 ^ 29"
    unfolding x using f_sign_lt [of p] E F by (rule d_fields_build)+
qed

lemma unpack_f_subnormal:
  assumes "f_exponent p = 0" "f_fraction p \<noteq> 0"
  defines "k \<equiv> bit_length (f_fraction p) - 1"
  shows "d_sign (unpack_f p) = f_sign p" "d_exponent (unpack_f p) = k + 874"
    "d_fraction (unpack_f p) = (f_fraction p - 2 ^ k) * 2 ^ (52 - k)"
    "k \<le> 22" "2 ^ k \<le> f_fraction p" "f_fraction p < 2 ^ Suc k"
proof -
  let ?m = "f_fraction p"
  from assms(2) have pos: "0 < ?m" by simp
  from bit_length_bounds [OF pos]
  have lo: "2 ^ k \<le> ?m" and hi: "?m < 2 ^ Suc k"
    by (simp_all add: k_def)
  show "2 ^ k \<le> ?m" by (rule lo)
  show "?m < 2 ^ Suc k" by (rule hi)
  have "(2::nat) ^ k < 2 ^ 23" using lo f_fraction_lt [of p] by simp
  then have "k < 23" by (simp only: power_strict_increasing_iff) 
  then show k: "k \<le> 22" by simp
  have x: "unpack_f p =
      word_of_nat (f_sign p * 2 ^ 63 + ((k + 874) * 2 ^ 52 + (?m - 2 ^ k) * 2 ^ (52 - k)))"
    unfolding unpack_f_def double_of_float_def Let_def
    by (intro arg_cong [where f = word_of_nat]) (use assms(1,2) in \<open>simp add: k_def\<close>)
  have E: "k + 874 < 2 ^ 11" using k by simp
  have "?m - 2 ^ k < 2 ^ k" using hi by simp
  then have "(?m - 2 ^ k) * 2 ^ (52 - k) < 2 ^ k * 2 ^ (52 - k)"
    by (simp only: mult_less_cancel2) simp
  also have "(2::nat) ^ k * 2 ^ (52 - k) = 2 ^ 52"
    using k by (simp add: power_add [symmetric])
  finally have F: "(?m - 2 ^ k) * 2 ^ (52 - k) < 2 ^ 52" .
  show "d_sign (unpack_f p) = f_sign p" "d_exponent (unpack_f p) = k + 874"
    "d_fraction (unpack_f p) = (?m - 2 ^ k) * 2 ^ (52 - k)"
    unfolding x using f_sign_lt [of p] E F by (rule d_fields_build)+
qed

lemma finite_single_unpack_f:
  assumes "f_exponent p \<noteq> 255"
  shows "finite_single (unpack_f p)"
proof -
  consider (zero) "f_exponent p = 0" "f_fraction p = 0"
    | (subnormal) "f_exponent p = 0" "f_fraction p \<noteq> 0"
    | (normal) "0 < f_exponent p" "f_exponent p < 255"
    using assms f_exponent_lt [of p] by fastforce
  then show ?thesis
  proof cases
    case zero
    then show ?thesis by (simp add: finite_single_def unpack_f_zero)
  next
    case subnormal
    note f = unpack_f_subnormal [OF subnormal]
    let ?k = "bit_length (f_fraction p) - 1"
    have "926 - (?k + 874) = 52 - ?k" by simp
    then have "d_fraction (unpack_f p) mod 2 ^ (926 - d_exponent (unpack_f p)) = 0"
      by (simp only: f(2,3) mod_mult_self2_is_0)
    moreover have "874 \<le> d_exponent (unpack_f p)" "d_exponent (unpack_f p) \<le> 896"
      using f(4) by (simp_all add: f(2))
    ultimately show ?thesis by (simp add: finite_single_def Let_def)
  next
    case normal
    note f = unpack_f_normal [OF normal]
    have "d_fraction (unpack_f p) mod 2 ^ 29 = 0"
      by (simp only: f(3) mod_mult_self2_is_0)
    moreover have "897 \<le> d_exponent (unpack_f p)" "d_exponent (unpack_f p) \<le> 1150"
      using normal by (simp_all add: f(2))
    ultimately show ?thesis by (simp add: finite_single_def Let_def)
  qed
qed

lemma unpack_f_inf:
  assumes "f_exponent p = 255" "f_fraction p = 0"
  shows "d_sign (unpack_f p) = f_sign p" "d_exponent (unpack_f p) = 2047"
    "d_fraction (unpack_f p) = 0"
proof -
  have "unpack_f p = word_of_nat (f_sign p * 2 ^ 63 + (2047 * 2 ^ 52 + 0))"
    by (simp add: unpack_f_def double_of_float_def assms)
  then show "d_sign (unpack_f p) = f_sign p" "d_exponent (unpack_f p) = 2047"
    "d_fraction (unpack_f p) = 0"
    using d_fields_build [of "f_sign p" 2047 0] f_sign_lt [of p] by simp_all
qed

lemma unpack_f_nan:
  assumes "f_exponent p = 255" "f_fraction p \<noteq> 0"
  shows "d_sign (unpack_f p) = f_sign p" "d_exponent (unpack_f p) = 2047"
    "d_fraction (unpack_f p) = 2 ^ 51 + f_fraction p mod 2 ^ 22 * 2 ^ 29"
proof -
  let ?F = "2 ^ 51 + f_fraction p mod 2 ^ 22 * 2 ^ 29"
  have x: "unpack_f p = word_of_nat (f_sign p * 2 ^ 63 + (2047 * 2 ^ 52 + ?F))"
    unfolding unpack_f_def double_of_float_def Let_def
    by (intro arg_cong [where f = word_of_nat]) (use assms in simp)
  have "f_fraction p mod 2 ^ 22 * 2 ^ 29 < 2 ^ 22 * 2 ^ 29"
    by (simp only: mult_less_cancel2) simp
  then have F: "?F < 2 ^ 52" by simp
  have E: "(2047 :: nat) < 2 ^ 11" by simp
  show "d_sign (unpack_f p) = f_sign p" "d_exponent (unpack_f p) = 2047"
    "d_fraction (unpack_f p) = ?F"
    unfolding x using f_sign_lt [of p] E F by (rule d_fields_build)+
qed

lemma float_of_double_unpack_f:
  assumes "f_exponent p = 255 \<Longrightarrow> f_fraction p = 0 \<or> 2 ^ 22 \<le> f_fraction p"
  shows "float_of_double (unpack_f p) = p"
proof -
  let ?x = "unpack_f p"
  let ?s = "f_sign p" and ?e = "f_exponent p" and ?m = "f_fraction p"
  consider (zero) "?e = 0" "?m = 0"
    | (subnormal) "?e = 0" "?m \<noteq> 0"
    | (normal) "0 < ?e" "?e < 255"
    | (inf) "?e = 255" "?m = 0"
    | (nan) "?e = 255" "2 ^ 22 \<le> ?m"
    using assms f_exponent_lt [of p] by fastforce
  then have "float_of_double ?x = word_of_nat (?s * 2 ^ 31 + ?e * 2 ^ 23 + ?m)"
  proof cases
    case zero
    then show ?thesis
      by (simp add: float_of_double_def unpack_f_zero)
  next
    case subnormal
    note f = unpack_f_subnormal [OF subnormal]
    define k where "k = bit_length ?m - 1"
    have k: "k \<le> 22" "2 ^ k \<le> ?m" using f(4,5) by (simp_all add: k_def)
    have sh: "926 - (k + 874) = 52 - k" by simp
    have "(2::nat) ^ 52 = 2 ^ k * 2 ^ (52 - k)"
      using k(1) by (simp add: power_add [symmetric])
    then have "2 ^ 52 + (?m - 2 ^ k) * 2 ^ (52 - k) = (2 ^ k + (?m - 2 ^ k)) * 2 ^ (52 - k)"
      by (simp only: distrib_right)
    also have "2 ^ k + (?m - 2 ^ k) = ?m" using k(2) by simp
    finally have whole: "2 ^ 52 + (?m - 2 ^ k) * 2 ^ (52 - k) = ?m * 2 ^ (52 - k)" .
    have "round_half_even (?m * 2 ^ (52 - k)) (52 - k) = ?m * 2 ^ (52 - k) div 2 ^ (52 - k)"
      by (rule round_half_even_exact) (simp only: mod_mult_self2_is_0)
    then have r: "round_half_even (2 ^ 52 + (?m - 2 ^ k) * 2 ^ (52 - k)) (926 - (k + 874)) = ?m"
      by (simp only: whole sh) simp
    show ?thesis
      unfolding float_of_double_def Let_def f(1,2,3) k_def [symmetric]
      by (intro arg_cong [where f = word_of_nat]) (use k(1) r subnormal(1) in simp)
  next
    case normal
    note f = unpack_f_normal [OF normal]
    have "(2 ^ 52 + ?m * 2 ^ 29) = (2 ^ 23 + ?m) * 2 ^ 29" by simp
    then have whole: "(2 ^ 52 + ?m * 2 ^ 29) mod 2 ^ 29 = 0"
      "(2 ^ 52 + ?m * 2 ^ 29) div 2 ^ 29 = 2 ^ 23 + ?m"
      by (simp_all only: mod_mult_self2_is_0) simp
    have r: "round_half_even (2 ^ 52 + ?m * 2 ^ 29) 29 = 2 ^ 23 + ?m"
      using round_half_even_exact [OF whole(1)] by (simp only: whole(2))
    have "(?e - 1) * 2 ^ 23 + (2 ^ 23 + ?m) = ?e * 2 ^ 23 + ?m"
      using normal(1) by (simp add: algebra_simps)
    moreover have "?e * 2 ^ 23 + ?m < 255 * 2 ^ 23"
    proof -
      have "?e * 2 ^ 23 \<le> 254 * 2 ^ 23" using normal(2) by simp
      with f_fraction_lt [of p] show ?thesis by simp
    qed
    ultimately have body: "min (255 * 2 ^ 23) ((?e + 896 - 897) * 2 ^ 23 + (2 ^ 23 + ?m)) =
        ?e * 2 ^ 23 + ?m"
      by simp
    show ?thesis
      unfolding float_of_double_def Let_def f(1,2,3) r
      by (intro arg_cong [where f = word_of_nat]) (use normal body in simp)
  next
    case inf
    then show ?thesis
      by (simp add: float_of_double_def unpack_f_inf)
  next
    case nan
    then have ne: "?m \<noteq> 0" by auto
    note f = unpack_f_nan [OF nan(1) ne]
    have "(2 ^ 51 + ?m mod 2 ^ 22 * 2 ^ 29) = (2 ^ 22 + ?m mod 2 ^ 22) * 2 ^ 29" by simp
    then have "(2 ^ 51 + ?m mod 2 ^ 22 * 2 ^ 29) div 2 ^ 29 = 2 ^ 22 + ?m mod 2 ^ 22"
      by (simp only:) simp
    then have "(2 ^ 51 + ?m mod 2 ^ 22 * 2 ^ 29) div 2 ^ 29 mod 2 ^ 22 = ?m mod 2 ^ 22"
      by (simp only: mod_add_self1 mod_mod_trivial)
    moreover have "2 ^ 22 + ?m mod 2 ^ 22 = ?m"
    proof -
      have "?m mod 2 ^ 22 = (?m - 2 ^ 22) mod 2 ^ 22"
        using nan(2) by (rule le_mod_geq)
      also have "\<dots> = ?m - 2 ^ 22"
        using f_fraction_lt [of p] by (intro mod_less) simp
      finally show ?thesis using nan(2) by simp
    qed
    ultimately have body: "2 ^ 22 + (2 ^ 51 + ?m mod 2 ^ 22 * 2 ^ 29) div 2 ^ 29 mod 2 ^ 22 = ?m"
      by (simp only:)
    show ?thesis
      unfolding float_of_double_def Let_def f(1,2,3)
      by (intro arg_cong [where f = word_of_nat]) (use nan(1) body in simp)
  qed
  then show ?thesis by (simp only: f_compose)
qed

lemma pack_f_unpack_f:
  assumes "f_exponent p = 255 \<Longrightarrow> f_fraction p = 0 \<or> 2 ^ 22 \<le> f_fraction p"
  shows "pack_f (unpack_f p) = Inr p"
proof -
  have y: "float_of_double (unpack_f p) = p"
    using assms by (rule float_of_double_unpack_f)
  have "f_isinf p \<Longrightarrow> d_isinf (unpack_f p)"
    by (simp add: f_isinf_def d_isinf_def unpack_f_inf)
  then show ?thesis by (auto simp: pack_f_def y)
qed

lemma finite_single_iff:
  "finite_single x \<longleftrightarrow> (\<exists>p. f_exponent p \<noteq> 255 \<and> x = unpack_f p)"
proof
  assume x: "finite_single x"
  let ?y = "float_of_double x"
  from finite_single_round_trip [OF x]
  have pack: "pack_f x = Inr ?y" and unpack: "unpack_f ?y = x" by simp_all
  have "f_exponent ?y \<noteq> 255"
  proof
    assume e: "f_exponent ?y = 255"
    show False
    proof (cases "f_fraction ?y = 0")
      case True
      with e unpack have "d_exponent x = 2047" using unpack_f_inf(2) [of ?y] by simp
      with x show False by (simp add: finite_single_def Let_def)
    next
      case False
      with e unpack have "d_exponent x = 2047" using unpack_f_nan(2) [of ?y] by simp
      with x show False by (simp add: finite_single_def Let_def)
    qed
  qed
  with unpack show "\<exists>p. f_exponent p \<noteq> 255 \<and> x = unpack_f p" by metis
next
  assume "\<exists>p. f_exponent p \<noteq> 255 \<and> x = unpack_f p"
  then show "finite_single x" using finite_single_unpack_f by blast
qed

section \<open>Evaluating the model on concrete inputs\<close>

lemmas struct_defs =
  pack_f_def float_of_double_def d_sign_def d_exponent_def d_fraction_def d_isinf_def
  f_sign_def f_exponent_def f_fraction_def f_isinf_def round_half_even_def Let_def
  unpack_I_def pack_I_def unpack_f_def double_of_float_def

lemma replicate_numeral: "replicate (numeral k) x = x # replicate (pred_numeral k) x"
  by (simp add: numeral_eq_Suc)

lemmas text_defs =
  replicate_numeral format_032b_def zfill_def to_base.simps digit_char_def str_index_def slice_def
  py_int_def py_isspace_def is_digit_or_underscore_def digit_value_def digits_value_def
  hex_def

lemmas object_defs =
  init_def get_binary_representation_def get_sign_def get_exponent_raw_def
  get_exponent_unbiased_def get_mantissa_def get_mantissa_value_def is_special_def

lemma pack_f_one: "pack_f float_one = Inr 0x3F800000"
  by (simp add: struct_defs float_one_def)

lemma format_one: "format_032b (unpack_I 0x3F800000) = ''00111111100000000000000000000000''"
  by (simp add: struct_defs text_defs)

lemma init_one: "init float_one = Inr example_one"
  by (simp add: init_def get_binary_representation_def pack_f_one format_one example_one_def
      str_index_def slice_def)

lemma init_nan: "init float_nan = Inr example_nan"
  by (simp add: object_defs struct_defs text_defs float_nan_def example_nan_def)

lemma one_fields:
  "get_sign example_one = Inr 0" "get_exponent_raw example_one = Inr 127"
  "get_exponent_unbiased example_one = Inr 0" "get_mantissa_value example_one = 1"
  "is_special example_one = Inr None"
  "py_int 2 (binary_representation example_one) = Inr 0x3F800000"
  by (simp_all add: object_defs text_defs example_one_def)

lemma display_one: "display example_one = Inr (Calculation
     \<lparr>shown_sign = 0, shown_sign_str = ''Positive (+)'', shown_exp_raw = 127,
      shown_exp_unbiased = 0, shown_power_of_2 = 1, shown_mantissa_val = 1,
      shown_sign_multiplier = 1, shown_calculated = 1, shown_hex_rep = ''0x3f800000''\<rparr>)"
  by (simp add: display_def one_fields pow2_def) (simp add: text_defs)

lemma init_zero: "init float_zero = Inr example_zero"
  by (simp add: object_defs struct_defs text_defs float_zero_def example_zero_def)

lemma init_neg_zero: "init float_neg_zero = Inr example_neg_zero"
  by (simp add: object_defs struct_defs text_defs float_neg_zero_def example_neg_zero_def)

lemma init_inf: "init float_inf = Inr example_inf"
  by (simp add: object_defs struct_defs text_defs float_inf_def example_inf_def)

lemma zero_fields:
  "get_sign example_zero = Inr 0" "get_exponent_raw example_zero = Inr 0"
  "py_int 2 (get_mantissa example_zero) = Inr 0" "is_special example_zero = Inr (Some ''Zero'')"
  by (simp_all add: object_defs text_defs example_zero_def)

lemma neg_zero_fields:
  "get_sign example_neg_zero = Inr 1" "get_exponent_raw example_neg_zero = Inr 0"
  "py_int 2 (get_mantissa example_neg_zero) = Inr 0"
  "is_special example_neg_zero = Inr (Some ''Zero'')"
  by (simp_all add: object_defs text_defs example_neg_zero_def)

lemma inf_fields:
  "get_sign example_inf = Inr 0" "get_exponent_raw example_inf = Inr 255"
  "py_int 2 (get_mantissa example_inf) = Inr 0"
  "is_special example_inf = Inr (Some ''Infinity'')"
  by (simp_all add: object_defs text_defs example_inf_def)

lemma nan_fields:
  "get_sign example_nan = Inr 0" "get_exponent_raw example_nan = Inr 255"
  "py_int 2 (get_mantissa example_nan) = Inr 4194304"
  "is_special example_nan = Inr (Some ''NaN'')"
  by (simp_all add: object_defs text_defs example_nan_def)

lemma pack_f_min_subnormal: "pack_f float_min_subnormal = Inr 1"
  by (simp add: struct_defs float_min_subnormal_def)

lemma init_min_subnormal: "init float_min_subnormal = Inr example_denormal"
  by (simp add: init_def get_binary_representation_def pack_f_min_subnormal)
    (simp add: struct_defs text_defs example_denormal_def)

section \<open>Text input\<close>

lemma pack_I_unpack_I: "pack_I (unpack_I y) = Inr y"
proof -
  have "uint y < 2 ^ 32" using uint_bounded [of y] by simp
  then show ?thesis by (simp add: pack_I_def unpack_I_def)
qed

lemma binary_to_float_format:
  "binary_to_float (format_032b (unpack_I y)) = Inr (unpack_f y)"
proof -
  have "py_int 2 (bits_of 32 (unat y)) = Inr (unpack_I y)"
    using py_int_bits_of_lt [of 32 "unat y"] unat_lt_32 [of y] by (simp add: unpack_I_def)
  then show ?thesis
    using pack_I_unpack_I [of y] by (simp add: binary_to_float_def format_032b_pattern)
qed

lemma binary_to_float_wrong_length:
  "length binary_str \<noteq> 32 \<Longrightarrow> binary_to_float binary_str = Inl ValueError"
  by (simp add: binary_to_float_def)

lemma digits_value_binary_lt:
  "binary_string s \<Longrightarrow> digits_value 2 s < 2 ^ length s"
proof (induction s rule: rev_induct)
  case Nil
  then show ?case by (simp add: digits_value_def)
next
  case (snoc c s)
  then have "digits_value 2 s < 2 ^ length s" and "digit_value c < 2"
    by (auto simp: binary_char_facts)
  then show ?case by (simp add: digits_value_snoc)
qed

lemma binary_to_float_binary:
  assumes "length binary_str = 32" and "binary_string binary_str"
  shows "binary_to_float binary_str =
           Inr (unpack_f (word_of_nat (digits_value 2 binary_str)))"
proof -
  from assms have "binary_str \<noteq> []" by auto
  with assms have parse: "py_int 2 binary_str = Inr (int (digits_value 2 binary_str))"
    by (intro py_int_binary) simp_all
  have "digits_value 2 binary_str < 2 ^ 32"
    using digits_value_binary_lt [OF assms(2)] by (simp add: assms(1))
  then have "pack_I (int (digits_value 2 binary_str)) = Inr (word_of_nat (digits_value 2 binary_str))"
    by (simp add: pack_I_def)
  with parse assms(1) show ?thesis by (simp add: binary_to_float_def)
qed

lemma binary_to_float_accepts_sign:
  "binary_to_float ''+0111111100000000000000000000000'' = Inr float_one"
  by (simp add: binary_to_float_def struct_defs text_defs float_one_def bit_length.simps)

lemma binary_to_float_accepts_underscore:
  "binary_to_float ''0_111111100000000000000000000000'' = Inr float_one"
  by (simp add: binary_to_float_def struct_defs text_defs float_one_def bit_length.simps)

lemma binary_to_float_accepts_space:
  "binary_to_float '' 0111111100000000000000000000000'' = Inr float_one"
  by (simp add: binary_to_float_def struct_defs text_defs float_one_def bit_length.simps)

lemma hex_to_float_accepts_sign_and_underscore:
  "hex_to_float ''0x+3F80_0000'' = Inr float_one"
  by (simp add: hex_to_float_def struct_defs text_defs float_one_def bit_length.simps)

lemma hex_to_float_overflow: "hex_to_float ''0xFFFFFFFFF'' = Inl StructError"
  by (simp add: hex_to_float_def struct_defs text_defs)

lemma hex_to_float_invalid_digit: "hex_to_float ''0xG'' = Inl ValueError"
  by (simp add: hex_to_float_def struct_defs text_defs)

lemma hex_to_float_exact:
  assumes "hex_to_float hex_str = Inr v"
  shows "\<exists>n. py_int 16 (if take 2 hex_str = ''0x'' \<or> take 2 hex_str = ''0X''
                          then drop 2 hex_str else hex_str) = Inr n \<and>
             0 \<le> n \<and> n < 2 ^ 32 \<and> v = unpack_f (word_of_int n)"
  using assms
  by (auto simp: hex_to_float_def pack_I_def Let_def split: sum.splits if_splits)

section \<open>The calculation shown for a normal number\<close>

lemma display_normal:
  assumes "init v = Inr self" and "pack_f v = Inr p"
    and "0 < f_exponent p" and "f_exponent p < 255"
  shows "\<exists>c. display self = Inr (Calculation c) \<and>
           shown_calculated c =
             (if f_sign p = 1 then - 1 else 1) * pow2 (int (f_exponent p) - 127) *
             (1 + of_nat (f_fraction p) / 2 ^ 23)"
proof -
  note a = init_accessors [OF assms(1,2)]
  have special: "is_special self = Inr None"
    using assms(3,4) by (simp add: is_special_def a)
  show ?thesis
    using assms(3,4)
    by (simp add: display_def special a get_exponent_unbiased_def Let_def
        mantissa_value_closed [OF assms(1,2)])
qed

section \<open>The claims\<close>

text \<open>
  C1. Every float that is a finite binary32 value survives the round trip: the
  constructor accepts it, and \<^verbatim>\<open>binary_to_float\<close> applied to the object's 32-character
  binary representation returns the same float, bit for bit, the sign of a zero included.
\<close>

theorem binary_round_trip:
  assumes "finite_single v"
  shows "\<exists>self. init v = Inr self \<and> binary_to_float (binary_representation self) = Inr v"
proof -
  let ?y = "float_of_double v"
  from finite_single_round_trip [OF assms]
  have pack: "pack_f v = Inr ?y" and unpack: "unpack_f ?y = v" by simp_all
  let ?self = "\<lparr>float_value = v, binary_representation = bits_of 32 (unat ?y),
           sign_bit = bits_of 1 (unat ?y div 2 ^ 31),
           exponent_bits = bits_of 8 (unat ?y div 2 ^ 23),
           mantissa_bits = bits_of 23 (unat ?y)\<rparr>"
  have "init v = Inr ?self" using pack by (rule init_pattern)
  moreover have "binary_to_float (binary_representation ?self) = Inr v"
    using binary_to_float_format [of ?y] by (simp add: format_032b_pattern unpack)
  ultimately show ?thesis by blast
qed

theorem binary_round_trip_witness:
  "finite_single float_neg_zero \<and>
   (\<exists>self. init float_neg_zero = Inr self \<and>
      binary_to_float (binary_representation self) = Inr float_neg_zero)"
proof -
  have h: "finite_single float_neg_zero"
    by (simp add: finite_single_def d_exponent_def d_fraction_def float_neg_zero_def)
  from binary_round_trip [OF h] h show ?thesis by blast
qed

text \<open>
  C2. For every float the constructor accepts, with \<open>p\<close> the 32-bit pattern that
  \<^verbatim>\<open>struct.pack('!f', value)\<close> gives it: the binary representation read in base 2 is
  \<open>p\<close>; \<^verbatim>\<open>get_sign()\<close>, \<^verbatim>\<open>get_exponent_raw()\<close> and the mantissa field read as an
  unsigned integer succeed with values \<open>s\<close>, \<open>e\<close>, \<open>m\<close> such that
  \<open>s * 2 ^ 31 + e * 2 ^ 23 + m = p\<close>, with \<open>s\<close> one bit, \<open>e\<close> below \<open>2 ^ 8\<close> and \<open>m\<close>
  below \<open>2 ^ 23\<close>; and the three field strings, of 1, 8 and 23 characters, are the
  binary representation cut from its most significant end.
\<close>

theorem field_partition:
  assumes "init v = Inr self"
  shows "\<exists>p s e m. pack_f v = Inr p
           \<and> py_int 2 (binary_representation self) = Inr (uint p)
           \<and> get_sign self = Inr s
           \<and> get_exponent_raw self = Inr e
           \<and> py_int 2 (get_mantissa self) = Inr m
           \<and> s * 2 ^ 31 + e * 2 ^ 23 + m = uint p
           \<and> (s = 0 \<or> s = 1) \<and> 0 \<le> e \<and> e < 2 ^ 8 \<and> 0 \<le> m \<and> m < 2 ^ 23
           \<and> binary_representation self = sign_bit self @ exponent_bits self @ get_mantissa self
           \<and> length (sign_bit self) = 1
           \<and> length (exponent_bits self) = 8
           \<and> length (get_mantissa self) = 23"
proof -
  from assms obtain p where p: "pack_f v = Inr p"
    by (rule init_cases)
  from assms init_fields [OF p]
  have self: "self = \<lparr>float_value = v, binary_representation = bits_of 32 (unat p),
           sign_bit = bits_of 1 (f_sign p), exponent_bits = bits_of 8 (f_exponent p),
           mantissa_bits = bits_of 23 (f_fraction p)\<rparr>"
    by simp
  have whole: "py_int 2 (binary_representation self) = Inr (uint p)"
    using py_int_bits_of_lt [of 32 "unat p"] unat_lt_32 [of p] by (simp add: self)
  have s: "get_sign self = Inr (int (f_sign p))"
    using f_sign_lt [of p] by (simp add: self get_sign_def py_int_sign_bit_lt)
  have e: "get_exponent_raw self = Inr (int (f_exponent p))"
    using f_exponent_lt [of p] by (simp add: self get_exponent_raw_def py_int_bits_of_lt)
  have m: "py_int 2 (get_mantissa self) = Inr (int (f_fraction p))"
    using f_fraction_lt [of p] by (simp add: self get_mantissa_def py_int_bits_of_lt)
  have split: "binary_representation self = sign_bit self @ exponent_bits self @ get_mantissa self"
    using bits_of_32_split [of "unat p"] init_pattern [OF p] assms
    by (simp add: get_mantissa_def)
  have lens: "length (sign_bit self) = 1" "length (exponent_bits self) = 8"
    "length (get_mantissa self) = 23"
    by (simp_all add: self get_mantissa_def)
  have bounds: "int (f_sign p) = 0 \<or> int (f_sign p) = 1" "int (f_exponent p) < 2 ^ 8"
    "int (f_fraction p) < 2 ^ 23"
    using f_sign_lt [of p] f_exponent_lt [of p] f_fraction_lt [of p] by auto
  show ?thesis
    using p whole s e m uint_fields [of p] bounds split lens
    by (intro exI [of _ p] exI [of _ "int (f_sign p)"] exI [of _ "int (f_exponent p)"]
        exI [of _ "int (f_fraction p)"]) simp
qed

theorem field_partition_witness:
  "init float_one = Inr example_one \<and>
   (\<exists>p s e m. pack_f float_one = Inr p
           \<and> py_int 2 (binary_representation example_one) = Inr (uint p)
           \<and> get_sign example_one = Inr s
           \<and> get_exponent_raw example_one = Inr e
           \<and> py_int 2 (get_mantissa example_one) = Inr m
           \<and> s * 2 ^ 31 + e * 2 ^ 23 + m = uint p
           \<and> (s = 0 \<or> s = 1) \<and> 0 \<le> e \<and> e < 2 ^ 8 \<and> 0 \<le> m \<and> m < 2 ^ 23
           \<and> binary_representation example_one =
               sign_bit example_one @ exponent_bits example_one @ get_mantissa example_one
           \<and> length (sign_bit example_one) = 1
           \<and> length (exponent_bits example_one) = 8
           \<and> length (get_mantissa example_one) = 23)"
  using field_partition [OF init_one] init_one by (simp only: simp_thms)

text \<open>
  C3, as amended. \<^verbatim>\<open>is_special\<close> depends on the exponent and mantissa fields only, and
  is total on the \<open>256 * 2 ^ 23\<close> pairs: for every \<open>e < 2 ^ 8\<close> and \<open>m < 2 ^ 23\<close> and every
  object whose exponent and mantissa fields are the 8 and 23 binary digits of \<open>e\<close> and
  \<open>m\<close>, the two fields parse to \<open>e\<close> and \<open>m\<close> and the result is \<^verbatim>\<open>Infinity\<close> for
  \<open>e = 255, m = 0\<close>, \<^verbatim>\<open>NaN\<close> for \<open>e = 255, m \<noteq> 0\<close>, \<^verbatim>\<open>Zero\<close> for \<open>e = 0, m = 0\<close>,
  \<^verbatim>\<open>Denormalized\<close> for \<open>e = 0, m \<noteq> 0\<close>, and otherwise \<^verbatim>\<open>None\<close>: the code has four tags
  and no tag for a normal number.
\<close>

theorem classification_rule:
  assumes "e < 2 ^ 8" "m < 2 ^ 23"
    and "exponent_bits self = bits_of 8 e" "mantissa_bits self = bits_of 23 m"
  shows "get_exponent_raw self = Inr (int e) \<and>
         py_int 2 (mantissa_bits self) = Inr (int m) \<and>
         is_special self =
           Inr (if e = 255 \<and> m = 0 then Some ''Infinity''
                else if e = 255 \<and> m \<noteq> 0 then Some ''NaN''
                else if e = 0 \<and> m = 0 then Some ''Zero''
                else if e = 0 \<and> m \<noteq> 0 then Some ''Denormalized''
                else None)"
  using is_special_bits [OF assms] by (simp only: simp_thms)

theorem classification_rule_witness:
  "(127 :: nat) < 2 ^ 8 \<and> (0 :: nat) < 2 ^ 23 \<and>
   exponent_bits example_one = bits_of 8 127 \<and> mantissa_bits example_one = bits_of 23 0 \<and>
   get_exponent_raw example_one = Inr 127 \<and>
   py_int 2 (mantissa_bits example_one) = Inr 0 \<and>
   is_special example_one = Inr None"
proof -
  have e: "exponent_bits example_one = bits_of 8 127"
    and m: "mantissa_bits example_one = bits_of 23 0"
    by (simp_all add: example_one_def bits_of_numeral digit_char_def)
  show ?thesis
    using classification_rule [of 127 0 example_one, OF _ _ e m] e m by simp
qed

text \<open>
  C3 as stated fails at \<^verbatim>\<open>1.0\<close>: its exponent field is 127 and its mantissa field 0,
  a normal number, and \<^verbatim>\<open>is_special\<close> returns \<^verbatim>\<open>None\<close>, not a fifth tag \<^verbatim>\<open>Normal\<close>.
\<close>

theorem classification_counterexample:
  "init float_one = Inr example_one \<and>
   get_exponent_raw example_one = Inr 127 \<and>
   py_int 2 (mantissa_bits example_one) = Inr 0 \<and>
   is_special example_one = Inr None \<and>
   is_special example_one \<noteq> Inr (Some ''Normal'')"
  by (simp add: init_one one_fields) (simp add: example_one_def text_defs)

text \<open>
  C4. For every float the constructor accepts, \<^verbatim>\<open>get_mantissa_value\<close> returns
  \<open>1 + (\<Sum>i = 1..23. bit\<^sub>i * 2 ^ -i)\<close>, where \<open>bit\<^sub>i\<close> is the \<open>i\<close>-th character of the
  mantissa field, which is bit \<open>23 - i\<close> of the packed pattern. Nothing in the statement
  depends on the class of the pattern: the leading 1 is always added.
\<close>

theorem mantissa_value_formula:
  assumes "init v = Inr self" and "pack_f v = Inr p"
  shows "get_mantissa_value self =
           1 + (\<Sum>i = 1..23. (if get_mantissa self ! (i - 1) = CHR ''1'' then 1 else 0) / 2 ^ i) \<and>
         get_mantissa_value self =
           1 + (\<Sum>i = 1..23. (if bit p (23 - i) then 1 else 0) / 2 ^ i)"
proof -
  from assms init_pattern [OF assms(2)]
  have bits: "mantissa_bits self = bits_of 23 (unat p)" by auto
  let ?f = "\<lambda>i. (if get_mantissa self ! (i - 1) = CHR ''1'' then 1 else 0) / (2 :: rat) ^ i"
  let ?g = "\<lambda>j. if get_mantissa self ! j = CHR ''1'' then 1 else (0 :: rat)"
  have "length (mantissa_bits self) = 23" by (simp add: bits)
  then have "get_mantissa_value self = 1 + (\<Sum>j<23. ?g j / 2 ^ (0 + j + 1))"
    by (simp only: get_mantissa_value_def get_mantissa_def mantissa_loop_sum add_0)
  then have string: "get_mantissa_value self = 1 + (\<Sum>i = 1..23. ?f i)"
    by (simp only: sum_shift_1_23)
  have "(\<Sum>i = 1..23. ?f i) = (\<Sum>i = 1..23. (if bit p (23 - i) then 1 else 0) / 2 ^ i)"
  proof (rule sum.cong [OF refl])
    fix i :: nat
    assume "i \<in> {1..23}"
    then have i: "i - 1 < 23" "22 - (i - 1) = 23 - i" by auto
    have "get_mantissa self ! (i - 1) = CHR ''1'' \<longleftrightarrow> bit p (23 - i)"
      using bits_of_nth_bit [OF i(1), of p] by (simp only: get_mantissa_def bits i(2))
    then show "?f i = (if bit p (23 - i) then 1 else 0) / 2 ^ i"
      by (simp only:)
  qed
  with string show ?thesis by simp
qed

theorem mantissa_value_formula_witness:
  "init float_nan = Inr example_nan \<and> pack_f float_nan = Inr 0x7FC00000 \<and>
   get_mantissa_value example_nan =
     1 + (\<Sum>i = 1..23. (if get_mantissa example_nan ! (i - 1) = CHR ''1'' then 1 else 0) / 2 ^ i) \<and>
   get_mantissa_value example_nan =
     1 + (\<Sum>i = 1..23. (if bit (0x7FC00000 :: 32 word) (23 - i) then 1 else 0) / 2 ^ i)"
proof -
  have p: "pack_f float_nan = Inr 0x7FC00000"
    by (simp add: struct_defs float_nan_def)
  from mantissa_value_formula [OF init_nan p] init_nan p show ?thesis
    by blast
qed

text \<open>
  C5, as amended. For every float the constructor accepts whose pattern has exponent
  field 0 and a mantissa field other than 0, \<^verbatim>\<open>is_special\<close> returns \<^verbatim>\<open>Denormalized\<close> and
  \<^verbatim>\<open>display\<close> reports that tag and returns before its calculation: it reconstructs no
  value, by the denormal formula or by the normal one. \<^verbatim>\<open>get_mantissa_value\<close> on such an
  object still is 1 plus the fraction.
\<close>

theorem denormalized_not_reconstructed:
  assumes "init v = Inr self" and "pack_f v = Inr p"
    and "f_exponent p = 0" and "f_fraction p \<noteq> 0"
  shows "is_special self = Inr (Some ''Denormalized'') \<and>
         display self = Inr (SpecialValue ''Denormalized'' None) \<and>
         reconstructed (display self) = None \<and>
         get_mantissa_value self = 1 + of_nat (f_fraction p) / 2 ^ 23"
proof -
  from assms(1) init_fields [OF assms(2)]
  have self: "exponent_bits self = bits_of 8 (f_exponent p)"
    "mantissa_bits self = bits_of 23 (f_fraction p)"
    by auto
  have "is_special self =
      Inr (if f_exponent p = 255 \<and> f_fraction p = 0 then Some ''Infinity''
           else if f_exponent p = 255 \<and> f_fraction p \<noteq> 0 then Some ''NaN''
           else if f_exponent p = 0 \<and> f_fraction p = 0 then Some ''Zero''
           else if f_exponent p = 0 \<and> f_fraction p \<noteq> 0 then Some ''Denormalized''
           else None)"
    using f_exponent_lt [of p] f_fraction_lt [of p] self by (rule is_special_bits)
  with assms(3,4) have special: "is_special self = Inr (Some ''Denormalized'')"
    by simp
  then have shown: "display self = Inr (SpecialValue ''Denormalized'' None)"
    by (simp add: display_def)
  then have "reconstructed (display self) = None"
    by (simp add: reconstructed_def)
  with special shown mantissa_value_closed [OF assms(1,2)] show ?thesis by simp
qed

theorem denormalized_not_reconstructed_witness:
  "init float_min_subnormal = Inr example_denormal \<and>
   pack_f float_min_subnormal = Inr 1 \<and> f_exponent 1 = 0 \<and> f_fraction 1 \<noteq> 0 \<and>
   is_special example_denormal = Inr (Some ''Denormalized'') \<and>
   display example_denormal = Inr (SpecialValue ''Denormalized'' None) \<and>
   reconstructed (display example_denormal) = None \<and>
   get_mantissa_value example_denormal = 1 + of_nat (f_fraction 1) / 2 ^ 23"
proof -
  have e: "f_exponent 1 = 0" and m: "f_fraction 1 \<noteq> 0"
    by (simp_all add: f_exponent_def f_fraction_def)
  from denormalized_not_reconstructed [OF init_min_subnormal pack_f_min_subnormal e m]
    init_min_subnormal pack_f_min_subnormal e m
  show ?thesis by blast
qed

text \<open>
  C5 as stated fails at the smallest subnormal, the pattern 1: the claimed value
  \<open>2 ^ -126 * 2 ^ -23\<close> is not reconstructed, \<^verbatim>\<open>display\<close> reports the tag only.
\<close>

theorem denormalized_counterexample:
  "init float_min_subnormal = Inr example_denormal \<and>
   get_exponent_raw example_denormal = Inr 0 \<and>
   py_int 2 (mantissa_bits example_denormal) = Inr 1 \<and>
   is_special example_denormal = Inr (Some ''Denormalized'') \<and>
   display example_denormal = Inr (SpecialValue ''Denormalized'' None) \<and>
   reconstructed (display example_denormal) \<noteq> Some (1 / 2 ^ 126 * (1 / 2 ^ 23))"
proof -
  have fields: "get_exponent_raw example_denormal = Inr 0"
    "py_int 2 (mantissa_bits example_denormal) = Inr 1"
    by (simp_all add: object_defs text_defs example_denormal_def)
  then have special: "is_special example_denormal = Inr (Some ''Denormalized'')"
    by (simp add: is_special_def)
  then have shown: "display example_denormal = Inr (SpecialValue ''Denormalized'' None)"
    by (simp add: display_def)
  then have "reconstructed (display example_denormal) = None"
    by (simp add: reconstructed_def)
  with init_min_subnormal fields special shown show ?thesis by simp
qed

text \<open>
  C6 fails on the code. The 32 characters \<^verbatim>\<open>0b111111100000000000000000000000\<close> hold a
  \<^verbatim>\<open>b\<close> and 30 binary digits, and \<^verbatim>\<open>binary_to_float\<close> returns \<^verbatim>\<open>1.0\<close> for them: the
  length check counts characters, and \<^verbatim>\<open>int(binary_str, 2)\<close> reads a prefix, a sign,
  underscores and surrounding whitespace.
\<close>

theorem binary_to_float_accepts_prefix:
  "length ''0b111111100000000000000000000000'' = 32 \<and>
   binary_to_float ''0b111111100000000000000000000000'' = Inr float_one"
  by (simp add: binary_to_float_def struct_defs text_defs float_one_def bit_length.simps)

text \<open>
  C7 fails on the code. After the prefix of \<^verbatim>\<open>0x0x3F800000\<close> is removed, the rest still
  holds an \<^verbatim>\<open>x\<close>, and \<^verbatim>\<open>hex_to_float\<close> returns \<^verbatim>\<open>1.0\<close>: \<^verbatim>\<open>int(hex_str, 16)\<close> reads a
  prefix of its own, a sign, underscores and surrounding whitespace.
\<close>

theorem hex_to_float_accepts_second_prefix:
  "hex_to_float ''0x0x3F800000'' = Inr float_one"
  by (simp add: hex_to_float_def struct_defs text_defs float_one_def bit_length.simps)

text \<open>
  C8. The constructor accepts \<^verbatim>\<open>0.0\<close>, \<^verbatim>\<open>-0.0\<close>, \<^verbatim>\<open>float('inf')\<close> and \<^verbatim>\<open>float('nan')\<close>.
  Zero has sign 0, exponent 0, mantissa 0 and the tag \<^verbatim>\<open>Zero\<close>; minus zero has sign 1,
  exponent 0, mantissa 0 and the tag \<^verbatim>\<open>Zero\<close>; plus infinity has sign 0, exponent 255,
  mantissa 0 and the tag \<^verbatim>\<open>Infinity\<close>; the NaN has exponent 255, a mantissa other
  than 0 and the tag \<^verbatim>\<open>NaN\<close>.
\<close>

theorem special_values:
  "(\<exists>self. init float_zero = Inr self \<and> get_sign self = Inr 0 \<and>
      get_exponent_raw self = Inr 0 \<and> py_int 2 (get_mantissa self) = Inr 0 \<and>
      is_special self = Inr (Some ''Zero'')) \<and>
   (\<exists>self. init float_neg_zero = Inr self \<and> get_sign self = Inr 1 \<and>
      get_exponent_raw self = Inr 0 \<and> py_int 2 (get_mantissa self) = Inr 0 \<and>
      is_special self = Inr (Some ''Zero'')) \<and>
   (\<exists>self. init float_inf = Inr self \<and> get_sign self = Inr 0 \<and>
      get_exponent_raw self = Inr 255 \<and> py_int 2 (get_mantissa self) = Inr 0 \<and>
      is_special self = Inr (Some ''Infinity'')) \<and>
   (\<exists>self m. init float_nan = Inr self \<and> get_exponent_raw self = Inr 255 \<and>
      py_int 2 (get_mantissa self) = Inr m \<and> m \<noteq> 0 \<and>
      is_special self = Inr (Some ''NaN''))"
proof (intro conjI)
  show "\<exists>self. init float_zero = Inr self \<and> get_sign self = Inr 0 \<and>
      get_exponent_raw self = Inr 0 \<and> py_int 2 (get_mantissa self) = Inr 0 \<and>
      is_special self = Inr (Some ''Zero'')"
    using init_zero zero_fields by blast
  show "\<exists>self. init float_neg_zero = Inr self \<and> get_sign self = Inr 1 \<and>
      get_exponent_raw self = Inr 0 \<and> py_int 2 (get_mantissa self) = Inr 0 \<and>
      is_special self = Inr (Some ''Zero'')"
    using init_neg_zero neg_zero_fields by blast
  show "\<exists>self. init float_inf = Inr self \<and> get_sign self = Inr 0 \<and>
      get_exponent_raw self = Inr 255 \<and> py_int 2 (get_mantissa self) = Inr 0 \<and>
      is_special self = Inr (Some ''Infinity'')"
    using init_inf inf_fields by blast
  have "(4194304 :: int) \<noteq> 0" by simp
  then show "\<exists>self m. init float_nan = Inr self \<and> get_exponent_raw self = Inr 255 \<and>
      py_int 2 (get_mantissa self) = Inr m \<and> m \<noteq> 0 \<and>
      is_special self = Inr (Some ''NaN'')"
    using init_nan nan_fields by blast
qed

text \<open>
  C9. The constructor gives \<^verbatim>\<open>1.0\<close> the binary representation
  \<^verbatim>\<open>00111111100000000000000000000000\<close>, which read in base 2 is \<open>0x3F800000\<close> and which
  \<^verbatim>\<open>hex\<close> prints as \<^verbatim>\<open>0x3f800000\<close>; the raw exponent is 127, the unbiased exponent
  \<open>127 - 127 = 0\<close>, the mantissa value 1, and the value that \<^verbatim>\<open>display\<close> calculates is 1.
\<close>

theorem encode_one:
  "init float_one = Inr example_one \<and>
   binary_representation example_one = ''00111111100000000000000000000000'' \<and>
   py_int 2 (binary_representation example_one) = Inr 0x3F800000 \<and>
   hex 0x3F800000 = ''0x3f800000'' \<and>
   get_exponent_raw example_one = Inr 127 \<and>
   get_exponent_unbiased example_one = Inr (127 - 127) \<and>
   get_mantissa_value example_one = 1 \<and>
   display example_one = Inr (Calculation
     \<lparr>shown_sign = 0, shown_sign_str = ''Positive (+)'', shown_exp_raw = 127,
      shown_exp_unbiased = 0, shown_power_of_2 = 1, shown_mantissa_val = 1,
      shown_sign_multiplier = 1, shown_calculated = 1, shown_hex_rep = ''0x3f800000''\<rparr>)"
  by (simp add: init_one one_fields display_one) (simp add: example_one_def text_defs)

text \<open>
  C10. For every float the constructor accepts, with \<open>p\<close> the 32-bit pattern that
  \<^verbatim>\<open>struct.pack('!f', value)\<close> gives it: \<^verbatim>\<open>get_exponent_raw()\<close> is the exponent field
  of \<open>p\<close>, and \<^verbatim>\<open>is_special\<close> returns \<^verbatim>\<open>None\<close> exactly when that field is between 1
  and 254. A tag is returned for exactly the four special classes: \<^verbatim>\<open>Infinity\<close> exactly
  for exponent field 255 and fraction field 0, \<^verbatim>\<open>NaN\<close> exactly for 255 and a fraction
  other than 0, \<^verbatim>\<open>Zero\<close> exactly for 0 and 0, \<^verbatim>\<open>Denormalized\<close> exactly for 0 and a
  fraction other than 0; and nothing else is ever returned.
\<close>

theorem normal_is_none:
  assumes "init v = Inr self"
  shows "\<exists>p. pack_f v = Inr p \<and>
           get_exponent_raw self = Inr (int (f_exponent p)) \<and>
           (is_special self = Inr None) = (1 \<le> f_exponent p \<and> f_exponent p \<le> 254) \<and>
           (is_special self = Inr (Some ''Infinity'')) =
             (f_exponent p = 255 \<and> f_fraction p = 0) \<and>
           (is_special self = Inr (Some ''NaN'')) =
             (f_exponent p = 255 \<and> f_fraction p \<noteq> 0) \<and>
           (is_special self = Inr (Some ''Zero'')) =
             (f_exponent p = 0 \<and> f_fraction p = 0) \<and>
           (is_special self = Inr (Some ''Denormalized'')) =
             (f_exponent p = 0 \<and> f_fraction p \<noteq> 0) \<and>
           is_special self \<in> {Inr None, Inr (Some ''Infinity''), Inr (Some ''NaN''),
             Inr (Some ''Zero''), Inr (Some ''Denormalized'')}"
proof -
  from assms obtain p where p: "pack_f v = Inr p"
    by (rule init_cases)
  note a = init_accessors [OF assms p]
  have range: "f_exponent p < 256"
    using f_exponent_lt [of p] by simp
  have rule: "is_special self =
      Inr (if f_exponent p = 255 \<and> f_fraction p = 0 then Some ''Infinity''
           else if f_exponent p = 255 \<and> f_fraction p \<noteq> 0 then Some ''NaN''
           else if f_exponent p = 0 \<and> f_fraction p = 0 then Some ''Zero''
           else if f_exponent p = 0 \<and> f_fraction p \<noteq> 0 then Some ''Denormalized''
           else None)"
    using is_special_fields [OF a(2,3)] by simp
  have "get_exponent_raw self = Inr (int (f_exponent p)) \<and>
      (is_special self = Inr None) = (1 \<le> f_exponent p \<and> f_exponent p \<le> 254) \<and>
      (is_special self = Inr (Some ''Infinity'')) =
        (f_exponent p = 255 \<and> f_fraction p = 0) \<and>
      (is_special self = Inr (Some ''NaN'')) =
        (f_exponent p = 255 \<and> f_fraction p \<noteq> 0) \<and>
      (is_special self = Inr (Some ''Zero'')) =
        (f_exponent p = 0 \<and> f_fraction p = 0) \<and>
      (is_special self = Inr (Some ''Denormalized'')) =
        (f_exponent p = 0 \<and> f_fraction p \<noteq> 0) \<and>
      is_special self \<in> {Inr None, Inr (Some ''Infinity''), Inr (Some ''NaN''),
        Inr (Some ''Zero''), Inr (Some ''Denormalized'')}"
    using range a(2) unfolding rule by auto
  with p show ?thesis by blast
qed

theorem normal_is_none_witness:
  "init float_one = Inr example_one \<and>
   (\<exists>p. pack_f float_one = Inr p \<and>
      get_exponent_raw example_one = Inr (int (f_exponent p)) \<and>
      (is_special example_one = Inr None) = (1 \<le> f_exponent p \<and> f_exponent p \<le> 254) \<and>
      (is_special example_one = Inr (Some ''Infinity'')) =
        (f_exponent p = 255 \<and> f_fraction p = 0) \<and>
      (is_special example_one = Inr (Some ''NaN'')) =
        (f_exponent p = 255 \<and> f_fraction p \<noteq> 0) \<and>
      (is_special example_one = Inr (Some ''Zero'')) =
        (f_exponent p = 0 \<and> f_fraction p = 0) \<and>
      (is_special example_one = Inr (Some ''Denormalized'')) =
        (f_exponent p = 0 \<and> f_fraction p \<noteq> 0) \<and>
      is_special example_one \<in> {Inr None, Inr (Some ''Infinity''), Inr (Some ''NaN''),
        Inr (Some ''Zero''), Inr (Some ''Denormalized'')})"
  using normal_is_none [OF init_one] init_one by (simp only: simp_thms)

end
